(* ===== verification/Prelude.thy ===== *)
theory Prelude
  imports
    Main
    "HOL-Library.Word"
    "HOL-Library.While_Combinator"
    "HOL-Library.Sublist"
begin

text \<open>
  What every component of the client shares: machine integers and byte buffers (the operations
  of \<^verbatim>\<open>bytes::Buf\<close> and \<^verbatim>\<open>bytes::BufMut\<close> the codecs call, with their panics), the outcome
  type of code that can panic, the \<^verbatim>\<open>Poll\<close> type of \<^verbatim>\<open>std::task\<close>, and the lemmas on lists and
  words the component theories use.
\<close>

named_theorems codec_simps \<open>unfolding the byte-buffer operations\<close>
named_theorems step_defs \<open>definitions of the single steps of the poll loops\<close>

section \<open>Types\<close>

type_synonym u8 = "8 word"
type_synonym u16 = "16 word"
type_synonym u32 = "32 word"
type_synonym bytes = "u8 list"

text \<open>A Rust \<^verbatim>\<open>String\<close> is its UTF-8 bytes.\<close>

type_synonym rstring = bytes

text \<open>An \<^verbatim>\<open>std::io::Error\<close> is opaque to this program: it is only stored, wrapped and printed.\<close>

type_synonym io_error = string

text \<open>Code that can panic: a value, or the message of the panic.\<close>

datatype 'a outcome = Ret 'a | Panic string

fun and_then :: "'a outcome \<Rightarrow> ('a \<Rightarrow> 'b outcome) \<Rightarrow> 'b outcome" where
  "and_then (Ret x) f = f x"
| "and_then (Panic m) f = Panic m"

text \<open>\<^verbatim>\<open>std::task::Poll\<close>\<close>

datatype 'a poll = Ready 'a | Pending

section \<open>Byte buffers\<close>

text \<open>
  A \<^verbatim>\<open>BytesMut\<close> is the list of its unread bytes. Reading consumes from the front and panics
  when too few bytes are left; \<^verbatim>\<open>put_\<close> operations append. Multi-byte integers are big-endian.
\<close>

definition u16_from_be_bytes :: "u8 \<Rightarrow> u8 \<Rightarrow> u16" where
  "u16_from_be_bytes hi lo = word_of_nat (unat hi * 256 + unat lo)"

definition u16_to_be_bytes :: "u16 \<Rightarrow> bytes" where
  "u16_to_be_bytes w = [word_of_nat (unat w div 256), word_of_nat (unat w mod 256)]"

fun get_u8 :: "bytes \<Rightarrow> (u8 \<times> bytes) outcome" where
  "get_u8 (b # src) = Ret (b, src)"
| "get_u8 [] = Panic ''advance out of bounds''"

fun get_u16 :: "bytes \<Rightarrow> (u16 \<times> bytes) outcome" where
  "get_u16 (hi # lo # src) = Ret (u16_from_be_bytes hi lo, src)"
| "get_u16 _ = Panic ''advance out of bounds''"

definition split_to :: "nat \<Rightarrow> bytes \<Rightarrow> (bytes \<times> bytes) outcome" where
  "split_to n src =
     (if n \<le> length src then Ret (take n src, drop n src) else Panic ''split_to out of bounds'')"

definition put_u8 :: "u8 \<Rightarrow> bytes \<Rightarrow> bytes" where
  "put_u8 b dst = dst @ [b]"

definition put_u16 :: "u16 \<Rightarrow> bytes \<Rightarrow> bytes" where
  "put_u16 w dst = dst @ u16_to_be_bytes w"

definition extend_from_slice :: "bytes \<Rightarrow> bytes \<Rightarrow> bytes" where
  "extend_from_slice bs dst = dst @ bs"

section \<open>Lemmas on outcomes and bytes\<close>

lemma and_then_eq_Ret [simp]:
  "and_then x f = Ret y \<longleftrightarrow> (\<exists>a. x = Ret a \<and> f a = Ret y)"
  by (cases x) auto

lemma get_u8_append: "get_u8 src = Ret (b, rest) \<Longrightarrow> get_u8 (src @ xs) = Ret (b, rest @ xs)"
  by (cases src) auto

lemma get_u16_append: "get_u16 src = Ret (w, rest) \<Longrightarrow> get_u16 (src @ xs) = Ret (w, rest @ xs)"
  by (cases src rule: get_u16.cases) auto

lemma unat_u8_lt [simp]: "unat (b :: u8) < 256"
  using unsigned_less [of b] by simp

lemma unat_u16_lt [simp]: "unat (w :: u16) < 65536"
  using unsigned_less [of w] by simp

lemma unat_word_of_nat_u8 [simp]: "n < 256 \<Longrightarrow> unat (word_of_nat n :: u8) = n"
  by (simp add: unat_of_nat take_bit_nat_eq_self)

lemma unat_word_of_nat_u16 [simp]: "n < 65536 \<Longrightarrow> unat (word_of_nat n :: u16) = n"
  by (simp add: unat_of_nat take_bit_nat_eq_self)

lemma unat_word_of_nat_u16_mod: "unat (word_of_nat n :: u16) = n mod 65536"
  by (simp add: unat_of_nat take_bit_eq_mod)

lemma u16_be_round_trip:
  "u16_from_be_bytes (word_of_nat (unat w div 256)) (word_of_nat (unat w mod 256)) = w"
proof -
  have hi: "unat w div 256 < 256"
    using unat_u16_lt [of w] by (simp add: less_mult_imp_div_less)
  have "unat w div 256 * 256 + unat w mod 256 = unat w"
    by simp
  with hi show ?thesis
    by (simp add: u16_from_be_bytes_def)
qed

lemma get_u16_put [simp]: "get_u16 (u16_to_be_bytes w @ src) = Ret (w, src)"
  by (simp add: u16_to_be_bytes_def u16_be_round_trip)

lemma length_u16_to_be_bytes [simp]: "length (u16_to_be_bytes w) = 2"
  by (simp add: u16_to_be_bytes_def)

lemma split_to_Ret [simp]:
  "split_to n src = Ret r \<longleftrightarrow> n \<le> length src \<and> r = (take n src, drop n src)"
  by (auto simp: split_to_def)

lemma split_to_append [simp]: "split_to (length xs) (xs @ ys) = Ret (xs, ys)"
  by (simp add: split_to_def)

lemmas put_defs [codec_simps] = put_u8_def put_u16_def extend_from_slice_def

end
