(* ===== verification/Codec.thy ===== *)
theory Codec
  imports Prelude
begin

text \<open>
  The contract of a frame codec, as \<^verbatim>\<open>tokio_util::codec::Framed\<close> uses it: bytes arrive in
  chunks of any size, each chunk is appended to the buffer, and the decoder is called until it
  answers \<^verbatim>\<open>Ok(None)\<close>. The two codecs of the client (the fire codec and the tunnel codec)
  interpret the locales below; the lemmas proved here hold for both.
\<close>

section \<open>Driving a decoder\<close>

text \<open>
  \<^verbatim>\<open>Decoder::decode(&mut self, src: &mut BytesMut) -> Result<Option<Item>, Error>\<close>: the result,
  the codec and the buffer after the call.
\<close>

type_synonym ('c, 'm) decoder = "'c \<Rightarrow> bytes \<Rightarrow> ((io_error + 'm option) \<times> 'c \<times> bytes) outcome"

text \<open>
  \<open>drain\<close> calls the decoder until it asks for more bytes: \<open>Some\<close> of the decoded items and of
  the codec and buffer left. It is \<open>None\<close> when the calls never end, and also when one of them
  fails or panics.
\<close>

partial_function (option) drain ::
  "('c, 'm) decoder \<Rightarrow> 'c \<Rightarrow> bytes \<Rightarrow> ('m list \<times> 'c \<times> bytes) option" where
  "drain dec c src =
     (case dec c src of
        Panic msg \<Rightarrow> None
      | Ret (r, c', src') \<Rightarrow>
          (case r of
             Inl e \<Rightarrow> None
           | Inr None \<Rightarrow> Some ([], c', src')
           | Inr (Some m) \<Rightarrow>
               Option.bind (drain dec c' src') (\<lambda>(ms, s). Some (m # ms, s))))"

text \<open>Chunks arriving one after the other, the buffer drained after each.\<close>

fun feed :: "('c, 'm) decoder \<Rightarrow> 'c \<Rightarrow> bytes \<Rightarrow> bytes list \<Rightarrow> ('m list \<times> 'c \<times> bytes) option" where
  "feed dec c src [] = Some ([], c, src)"
| "feed dec c src (chunk # chunks) =
     Option.bind (drain dec c (src @ chunk)) (\<lambda>(ms, c', src').
     Option.bind (feed dec c' src' chunks) (\<lambda>(ms', s). Some (ms @ ms', s)))"

lemma drain_frame:
  "dec c src = Ret (Inr (Some m), c', src') \<Longrightarrow>
   drain dec c src = Option.bind (drain dec c' src') (\<lambda>(ms, s). Some (m # ms, s))"
  by (subst drain.simps) simp

lemma drain_wait: "dec c src = Ret (Inr None, c', src') \<Longrightarrow> drain dec c src = Some ([], c', src')"
  by (subst drain.simps) simp

section \<open>The decoder contract\<close>

text \<open>
  A decoder neither fails nor panics; bytes that arrive later do not change what it does with
  the bytes it has; a decoded frame uses up a measure of the input.
\<close>

locale frame_decoder =
  fixes decode :: "('c, 'm) decoder"
    and mu :: "'c \<Rightarrow> bytes \<Rightarrow> nat"
  assumes decode_total: "\<exists>r c' src'. decode c src = Ret (Inr r, c', src')"
    and decode_frame_append:
      "decode c src = Ret (Inr (Some m), c', src') \<Longrightarrow>
       decode c (src @ xs) = Ret (Inr (Some m), c', src' @ xs)"
    and decode_wait_append:
      "decode c src = Ret (Inr None, c', src') \<Longrightarrow> decode c (src @ xs) = decode c' (src' @ xs)"
    and decode_progress:
      "decode c src = Ret (Inr (Some m), c', src') \<Longrightarrow> mu c' src' < mu c src"
begin

lemma decode_cases:
  obtains (frame) m c' src' where "decode c src = Ret (Inr (Some m), c', src')"
  | (wait) c' src' where "decode c src = Ret (Inr None, c', src')"
  using decode_total [of c src] by (metis option.exhaust)

lemma drain_total: "\<exists>ms c' src'. drain decode c src = Some (ms, c', src')"
proof (induction "mu c src" arbitrary: c src rule: less_induct)
  case less
  show ?case
  proof (cases c src rule: decode_cases)
    case (frame m c' src')
    then obtain ms c'' src'' where "drain decode c' src' = Some (ms, c'', src'')"
      using less decode_progress by blast
    with frame show ?thesis by (simp add: drain_frame)
  next
    case wait
    then show ?thesis by (simp add: drain_wait)
  qed
qed

lemma drain_append:
  "drain decode c src = Some (ms, c', src') \<Longrightarrow>
   drain decode c (src @ xs) = Option.bind (drain decode c' (src' @ xs)) (\<lambda>(ms', s). Some (ms @ ms', s))"
proof (induction "mu c src" arbitrary: c src ms rule: less_induct)
  case less
  show ?case
  proof (cases c src rule: decode_cases)
    case (frame m d rest)
    from frame less.prems obtain ms1 where
      tail: "drain decode d rest = Some (ms1, c', src')" and ms: "ms = m # ms1"
      by (auto simp: drain_frame bind_eq_Some_conv)
    have "drain decode d (rest @ xs) =
        Option.bind (drain decode c' (src' @ xs)) (\<lambda>(ms', s). Some (ms1 @ ms', s))"
      using less.hyps [OF decode_progress [OF frame] tail] .
    with ms show ?thesis
      by (cases "drain decode c' (src' @ xs)")
        (auto simp: drain_frame [of decode, OF decode_frame_append [OF frame, of xs]])
  next
    case (wait d rest)
    with less.prems have eq: "ms = []" "c' = d" "src' = rest"
      by (auto simp: drain_wait)
    have "drain decode c (src @ xs) = drain decode d (rest @ xs)"
      using decode_wait_append [OF wait, of xs]
      by (simp add: drain.simps [of decode c "src @ xs"] drain.simps [of decode d "rest @ xs"])
    with eq show ?thesis
      by (cases "drain decode d (rest @ xs)") auto
  qed
qed

text \<open>
  How the stream is cut into chunks does not matter: a drained codec that is fed any chunks ends
  with the same items, state and buffer as one that gets all the bytes at once.
\<close>

lemma feed_concat:
  "drain decode c src = Some ([], c, src) \<Longrightarrow>
   feed decode c src chunks = drain decode c (src @ concat chunks)"
proof (induction chunks arbitrary: c src)
  case Nil
  then show ?case by simp
next
  case (Cons chunk chunks)
  obtain ms c' src' where d: "drain decode c (src @ chunk) = Some (ms, c', src')"
    using drain_total by blast
  have "drain decode c' src' = Some ([], c', src')"
  proof -
    obtain ms2 c2 src2 where d2: "drain decode c' src' = Some (ms2, c2, src2)"
      using drain_total by blast
    then show ?thesis using drain_append [OF d, of "[]"] d by simp
  qed
  then have "feed decode c' src' chunks = drain decode c' (src' @ concat chunks)"
    by (rule Cons.IH)
  moreover have "drain decode c (src @ chunk @ concat chunks) =
      Option.bind (drain decode c' (src' @ concat chunks)) (\<lambda>(ms', s). Some (ms @ ms', s))"
    using drain_append [OF d, of "concat chunks"] by simp
  ultimately show ?case using d by simp
qed

end

section \<open>The codec contract\<close>

text \<open>
  A codec adds the encoder, the well-formed items (those its header can describe), and the
  number of bytes below which the idle decoder does not look at the buffer.
\<close>

locale frame_codec = frame_decoder decode mu
  for decode :: "('c, 'm) decoder" and mu :: "'c \<Rightarrow> bytes \<Rightarrow> nat" +
  fixes idle :: "'c"
    and encode :: "'m \<Rightarrow> bytes \<Rightarrow> (io_error + unit) \<times> bytes"
    and wire :: "'m \<Rightarrow> bytes"
    and wf :: "'m \<Rightarrow> bool"
    and min_bytes :: nat
  assumes encode_appends: "encode m dst = (Inr (), dst @ wire m)"
    and decode_wire:
      "wf m \<Longrightarrow> min_bytes \<le> length (wire m @ xs) \<Longrightarrow>
       decode idle (wire m @ xs) = Ret (Inr (Some m), idle, xs)"
    and min_bytes_pos: "0 < min_bytes"
    and decode_short: "length src < min_bytes \<Longrightarrow> decode idle src = Ret (Inr None, idle, src)"
begin

lemma drain_short: "length src < min_bytes \<Longrightarrow> drain decode idle src = Some ([], idle, src)"
  by (simp add: drain_wait decode_short)

text \<open>
  Everything that was encoded is decoded, in order, but for a tail of the stream shorter than
  the minimum the decoder waits for.
\<close>

lemma drain_wires:
  "list_all wf ms \<Longrightarrow>
   \<exists>ms1 ms2. ms = ms1 @ ms2 \<and> length (concat (map wire ms2)) < min_bytes \<and>
     drain decode idle (concat (map wire ms)) = Some (ms1, idle, concat (map wire ms2))"
proof (induction ms)
  case Nil
  show ?case using drain_short [of "[]"] min_bytes_pos by simp
next
  case (Cons m ms)
  then obtain ms1 ms2 where IH: "ms = ms1 @ ms2" "length (concat (map wire ms2)) < min_bytes"
    "drain decode idle (concat (map wire ms)) = Some (ms1, idle, concat (map wire ms2))"
    by auto
  show ?case
  proof (cases "min_bytes \<le> length (wire m @ concat (map wire ms))")
    case True
    with Cons.prems have "decode idle (wire m @ concat (map wire ms)) =
        Ret (Inr (Some m), idle, concat (map wire ms))"
      by (simp add: decode_wire)
    from drain_frame [of decode, OF this] IH show ?thesis
      by (intro exI [of _ "m # ms1"] exI [of _ ms2]) simp
  next
    case False
    then have "length (concat (map wire (m # ms))) < min_bytes"
      by simp
    from drain_short [OF this] this show ?thesis
      by (intro exI [of _ "[]"] exI [of _ "m # ms"]) simp
  qed
qed

text \<open>
  The same stream, fed in any chunks.
\<close>

lemma feed_wires:
  assumes "list_all wf ms" and "concat chunks = concat (map wire ms)"
  shows "\<exists>ms1 ms2. ms = ms1 @ ms2 \<and> length (concat (map wire ms2)) < min_bytes \<and>
     feed decode idle [] chunks = Some (ms1, idle, concat (map wire ms2))"
proof -
  have "drain decode idle [] = Some ([], idle, [])"
    using drain_short [of "[]"] min_bytes_pos by simp
  then have "feed decode idle [] chunks = drain decode idle (concat (map wire ms))"
    using assms(2) by (simp add: feed_concat)
  with drain_wires [OF assms(1)] show ?thesis by simp
qed

end

end
