(* ===== verification/Fire.thy ===== *)
theory Fire
  imports Codec
begin

text \<open>
  \<^verbatim>\<open>src/src/fire.rs\<close>: the frames of the redirector protocol, the responses built from a
  request header, and the fire codec with its 12-byte header. A \<^verbatim>\<open>usize\<close> length is a \<open>nat\<close>.
\<close>

section \<open>Frames\<close>

datatype FrameType = Request | Response | Notify | Error

fun frame_type_as_u8 :: "FrameType \<Rightarrow> u8" where
  "frame_type_as_u8 Request = 0"
| "frame_type_as_u8 Response = 1"
| "frame_type_as_u8 Notify = 2"
| "frame_type_as_u8 Error = 3"

definition frame_type_from_u8 :: "u8 \<Rightarrow> FrameType" where
  "frame_type_from_u8 value =
     (if value = 1 then Response
      else if value = 2 then Notify
      else if value = 3 then Error
      else Request)"

record FrameHeader =
  hdr_length :: nat
  hdr_component :: u16
  hdr_command :: u16
  hdr_error :: u16
  hdr_ty :: FrameType
  hdr_options :: u8
  hdr_seq :: u16

record Frame =
  header :: FrameHeader
  contents :: bytes

definition response_raw :: "FrameHeader \<Rightarrow> bytes \<Rightarrow> Frame" where
  "response_raw h cs =
     \<lparr>header = \<lparr>hdr_length = length cs, hdr_component = hdr_component h,
                hdr_command = hdr_command h, hdr_error = 0, hdr_ty = Response,
                hdr_options = 0, hdr_seq = hdr_seq h\<rparr>,
      contents = cs\<rparr>"

text \<open>The TDF serializer \<^verbatim>\<open>tdf::serialize_vec\<close> is a parameter.\<close>

definition response :: "('v \<Rightarrow> bytes) \<Rightarrow> FrameHeader \<Rightarrow> 'v \<Rightarrow> Frame" where
  "response serialize_vec h value = response_raw h (serialize_vec value)"

definition response_empty :: "FrameHeader \<Rightarrow> Frame" where
  "response_empty h = response_raw h []"

section \<open>The codec\<close>

record FireCodec =
  current_frame :: "FrameHeader option"

definition FireCodec_default :: FireCodec where
  "FireCodec_default = \<lparr>current_frame = None\<rparr>"

definition MIN_HEADER_SIZE :: nat where
  "MIN_HEADER_SIZE = 12"

definition fire_read_header :: "bytes \<Rightarrow> (FrameHeader \<times> bytes) outcome" where
  "fire_read_header src =
     and_then (get_u16 src) (\<lambda>(len, src).
     and_then (get_u16 src) (\<lambda>(component, src).
     and_then (get_u16 src) (\<lambda>(command, src).
     and_then (get_u16 src) (\<lambda>(error, src).
     and_then (get_u8 src) (\<lambda>(ty, src).
     and_then (get_u8 src) (\<lambda>(options, src).
     and_then (get_u16 src) (\<lambda>(seq, src).
     Ret (\<lparr>hdr_length = unat len, hdr_component = component, hdr_command = command,
           hdr_error = error, hdr_ty = frame_type_from_u8 (drop_bit 4 ty),
           hdr_options = drop_bit 4 options, hdr_seq = seq\<rparr>, src))))))))"

text \<open>
  The part of \<^verbatim>\<open>decode\<close> below the header: the frame is taken once all its bytes are there.
\<close>

definition fire_take_frame ::
  "FireCodec \<Rightarrow> bytes \<Rightarrow> ((io_error + Frame option) \<times> FireCodec \<times> bytes) outcome" where
  "fire_take_frame self src =
     (case current_frame self of
        None \<Rightarrow> Panic ''Missing current frame''
      | Some h \<Rightarrow>
          if length src < hdr_length h then Ret (Inr None, self, src)
          else
            and_then (split_to (hdr_length h) src) (\<lambda>(buffer, src).
            Ret (Inr (Some \<lparr>header = h, contents = buffer\<rparr>), self\<lparr>current_frame := None\<rparr>, src)))"

definition fire_decode :: "(FireCodec, Frame) decoder" where
  "fire_decode self src =
     (case current_frame self of
        Some h \<Rightarrow> fire_take_frame self src
      | None \<Rightarrow>
          if length src < MIN_HEADER_SIZE then Ret (Inr None, self, src)
          else
            and_then (fire_read_header src) (\<lambda>(h, src).
            fire_take_frame (self\<lparr>current_frame := Some h\<rparr>) src))"

definition fire_encode :: "Frame \<Rightarrow> bytes \<Rightarrow> (io_error + unit) \<times> bytes" where
  "fire_encode item dst =
     (let h = header item;
          dst = put_u16 (word_of_nat (hdr_length h)) dst;
          dst = put_u16 (hdr_component h) dst;
          dst = put_u16 (hdr_command h) dst;
          dst = put_u16 (hdr_error h) dst;
          dst = put_u8 (push_bit 4 (frame_type_as_u8 (hdr_ty h))) dst;
          dst = put_u8 (push_bit 4 (hdr_options h)) dst;
          dst = put_u16 (hdr_seq h) dst;
          dst = extend_from_slice (contents item) dst
      in (Inr (), dst))"

section \<open>The wire format\<close>

text \<open>The bytes of a frame, and the frames the header can describe.\<close>

definition fire_wire_header :: "FrameHeader \<Rightarrow> bytes" where
  "fire_wire_header h =
     u16_to_be_bytes (word_of_nat (hdr_length h)) @ u16_to_be_bytes (hdr_component h) @
     u16_to_be_bytes (hdr_command h) @ u16_to_be_bytes (hdr_error h) @
     [push_bit 4 (frame_type_as_u8 (hdr_ty h)), push_bit 4 (hdr_options h)] @
     u16_to_be_bytes (hdr_seq h)"

definition fire_wire :: "Frame \<Rightarrow> bytes" where
  "fire_wire item = fire_wire_header (header item) @ contents item"

definition fire_wf :: "Frame \<Rightarrow> bool" where
  "fire_wf item \<longleftrightarrow>
     hdr_length (header item) = length (contents item) \<and>
     length (contents item) < 65536 \<and> hdr_options (header item) < 16"

text \<open>What each decoded frame uses up: bytes, then the header being held.\<close>

definition fire_mu :: "FireCodec \<Rightarrow> bytes \<Rightarrow> nat" where
  "fire_mu c src = length src + (if current_frame c = None then 0 else 1)"

lemma length_fire_wire_header [simp]: "length (fire_wire_header h) = 12"
  by (simp add: fire_wire_header_def)

lemma frame_type_nibble [simp]:
  "frame_type_from_u8 (drop_bit 4 (push_bit 4 (frame_type_as_u8 ty))) = ty"
  by (cases ty) (simp_all add: frame_type_from_u8_def)

lemma options_nibble: "opts < 16 \<Longrightarrow> drop_bit 4 (push_bit 4 (opts :: u8)) = opts"
proof -
  assume "opts < 16"
  then have "unat opts < 16" by (simp add: word_less_nat_alt)
  then show ?thesis
    by (simp add: word_unat_eq_iff unat_drop_bit_eq drop_bit_eq_div push_bit_eq_mult unat_word_ariths)
qed

lemma fire_read_header_wire:
  assumes "hdr_length h < 65536" and "hdr_options h < 16"
  shows "fire_read_header (fire_wire_header h @ src) = Ret (h, src)"
  using assms by (simp add: fire_read_header_def fire_wire_header_def options_nibble)


text \<open>What the decoder knows of the next frame: its header, and the bytes behind it.\<close>

definition fire_parse_header :: "bytes \<Rightarrow> FrameHeader" where
  "fire_parse_header src =
     \<lparr>hdr_length = unat (u16_from_be_bytes (src ! 0) (src ! 1)),
      hdr_component = u16_from_be_bytes (src ! 2) (src ! 3),
      hdr_command = u16_from_be_bytes (src ! 4) (src ! 5),
      hdr_error = u16_from_be_bytes (src ! 6) (src ! 7),
      hdr_ty = frame_type_from_u8 (drop_bit 4 (src ! 8)),
      hdr_options = drop_bit 4 (src ! 9),
      hdr_seq = u16_from_be_bytes (src ! 10) (src ! 11)\<rparr>"

definition fire_next :: "FireCodec \<Rightarrow> bytes \<Rightarrow> (FrameHeader \<times> bytes) option" where
  "fire_next c src =
     (case current_frame c of
        Some h \<Rightarrow> Some (h, src)
      | None \<Rightarrow> if length src < 12 then None else Some (fire_parse_header src, drop 12 src))"

lemma fire_read_header_eq:
  "12 \<le> length src \<Longrightarrow> fire_read_header src = Ret (fire_parse_header src, drop 12 src)"
  by (auto simp: fire_read_header_def fire_parse_header_def Suc_le_length_iff numeral_eq_Suc)

text \<open>\<^verbatim>\<open>decode\<close> without its panics: none of its reads, splits and expectations can fail.\<close>

lemma fire_decode_eq:
  "fire_decode c src =
     Ret (case fire_next c src of
            None \<Rightarrow> (Inr None, c, src)
          | Some (h, rest) \<Rightarrow>
              if length rest < hdr_length h then (Inr None, c\<lparr>current_frame := Some h\<rparr>, rest)
              else (Inr (Some \<lparr>header = h, contents = take (hdr_length h) rest\<rparr>),
                    c\<lparr>current_frame := None\<rparr>, drop (hdr_length h) rest))"
  by (cases c) (simp add: fire_decode_def fire_take_frame_def fire_next_def fire_read_header_eq
      MIN_HEADER_SIZE_def split_to_def split: option.splits)

lemma fire_parse_header_append:
  "12 \<le> length src \<Longrightarrow> fire_parse_header (src @ xs) = fire_parse_header src"
  by (auto simp: fire_parse_header_def nth_append)

lemma fire_next_append: "fire_next c src = Some (h, rest) \<Longrightarrow> fire_next c (src @ xs) = Some (h, rest @ xs)"
  by (auto simp: fire_next_def fire_parse_header_append split: option.splits if_splits)

lemma fire_next_mu:
  "fire_next c src = Some (h, rest) \<Longrightarrow> length rest < fire_mu c src"
  by (auto simp: fire_next_def fire_mu_def split: option.splits if_splits)

lemma fire_next_held [simp]:
  "fire_next (c\<lparr>current_frame := Some h\<rparr>) src = Some (h, src)"
  by (simp add: fire_next_def)

lemma fire_encode_eq: "fire_encode item dst = (Inr (), dst @ fire_wire item)"
  by (simp add: fire_encode_def fire_wire_def fire_wire_header_def codec_simps Let_def)

lemma fire_parse_wire:
  assumes "fire_wf item"
  shows "fire_parse_header (fire_wire_header (header item) @ src) = header item"
  using fire_read_header_wire [of "header item" src] assms
    fire_read_header_eq [of "fire_wire_header (header item) @ src"]
  by (simp add: fire_wf_def)

section \<open>The codec contract\<close>

interpretation fire: frame_codec fire_decode fire_mu FireCodec_default fire_encode fire_wire fire_wf 12
proof unfold_locales
  fix c src
  show "\<exists>r c' src'. fire_decode c src = Ret (Inr r, c', src')"
    by (auto simp: fire_decode_eq split: option.splits)
next
  fix c src m c' src' xs
  assume "fire_decode c src = Ret (Inr (Some m), c', src')"
  then show "fire_decode c (src @ xs) = Ret (Inr (Some m), c', src' @ xs)"
    by (auto simp: fire_decode_eq fire_next_append split: option.splits if_splits)
next
  fix c src c' src' xs
  assume "fire_decode c src = Ret (Inr None, c', src')"
  then show "fire_decode c (src @ xs) = fire_decode c' (src' @ xs)"
    by (auto simp: fire_decode_eq fire_next_append split: option.splits if_splits)
next
  fix c src m c' src'
  assume "fire_decode c src = Ret (Inr (Some m), c', src')"
  then show "fire_mu c' src' < fire_mu c src"
    by (auto simp: fire_decode_eq fire_mu_def [of "c\<lparr>current_frame := None\<rparr>"]
        dest!: fire_next_mu split: option.splits if_splits)
next
  fix m dst
  show "fire_encode m dst = (Inr (), dst @ fire_wire m)"
    by (rule fire_encode_eq)
next
  fix m xs
  assume "fire_wf m"
  then show "fire_decode FireCodec_default (fire_wire m @ xs) = Ret (Inr (Some m), FireCodec_default, xs)"
    by (simp add: fire_decode_eq fire_next_def FireCodec_default_def fire_wire_def fire_parse_wire)
      (simp add: fire_wf_def)
next
  fix src :: bytes
  assume "length src < 12"
  then show "fire_decode FireCodec_default src = Ret (Inr None, FireCodec_default, src)"
    by (simp add: fire_decode_eq fire_next_def FireCodec_default_def)
qed simp

section \<open>Properties\<close>

text \<open>A frame for the witnesses.\<close>

definition sample_frame :: Frame where
  "sample_frame =
     \<lparr>header = \<lparr>hdr_length = 2, hdr_component = 5, hdr_command = 1, hdr_error = 0, hdr_ty = Notify,
        hdr_options = 3, hdr_seq = 258\<rparr>, contents = [10, 20]\<rparr>"

lemma sample_frame_wf: "fire_wf sample_frame"
  by (simp add: fire_wf_def sample_frame_def)

lemma fire_stream:
  assumes "list_all fire_wf frames"
    and "concat chunks = fold (\<lambda>frame dst. snd (fire_encode frame dst)) frames []"
  shows "feed fire_decode FireCodec_default [] chunks = Some (frames, FireCodec_default, [])"
proof -
  have "fold (\<lambda>frame dst. snd (fire_encode frame dst)) frames dst = dst @ concat (map fire_wire frames)" for dst
    by (induction frames arbitrary: dst) (simp_all add: fire_encode_eq)
  with assms obtain ms1 ms2 where ms: "frames = ms1 @ ms2"
    and short: "length (concat (map fire_wire ms2)) < 12"
    and feed: "feed fire_decode FireCodec_default [] chunks =
      Some (ms1, FireCodec_default, concat (map fire_wire ms2))"
    using fire.feed_wires [of frames chunks] by auto
  have "ms2 = []"
    using short by (cases ms2) (simp_all add: fire_wire_def)
  with ms feed show ?thesis by simp
qed

text \<open>C16: Frames that are encoded one after the other and arrive cut into chunks in any way are
  decoded to the same frames in the same order, and the decoder ends idle with nothing left over.
  The frames are those the header can describe: the length field is the content length and fits 16
  bits, the options fit their nibble.\<close>
theorem fire_stream_round_trip:
  assumes "list_all fire_wf frames"
    and "concat chunks = fold (\<lambda>frame dst. snd (fire_encode frame dst)) frames []"
  shows "feed fire_decode FireCodec_default [] chunks = Some (frames, FireCodec_default, [])"
  using assms by (rule fire_stream)

theorem fire_stream_round_trip_witness:
  "feed fire_decode FireCodec_default []
     [[0, 2, 0, 5, 0], [1, 0, 0, 0x20, 0x30, 1, 2, 10], [], [20]] =
   Some ([sample_frame], FireCodec_default, [])"
  by (rule fire_stream_round_trip)
    (simp_all add: fire_wf_def fire_encode_def sample_frame_def codec_simps u16_to_be_bytes_def)

text \<open>C22: The fire decoder never panics, never fails and never loops, whatever bytes arrive in
  whatever chunks and whatever frame it is in the middle of; and cutting the bytes differently gives
  the same frames, the same codec state and the same unread bytes.\<close>
theorem fire_decoder_robust:
  "\<exists>frames c' rest.
     drain fire_decode c src = Some (frames, c', rest) \<and>
     feed fire_decode FireCodec_default [] chunks = drain fire_decode FireCodec_default (concat chunks)"
proof -
  have "drain fire_decode FireCodec_default [] = Some ([], FireCodec_default, [])"
    by (rule fire.drain_short) simp
  with fire.drain_total [of c src] fire.feed_concat [of FireCodec_default "[]" chunks]
  show ?thesis by auto
qed

text \<open>A response keeps the component, the command and the sequence number of the request, has no
  error and no options, and the peer decodes it as exactly that frame when its contents fit the
  16-bit length.\<close>
theorem fire_response_decodes:
  assumes "length (serialize_vec value) < 65536"
  shows "fire_decode FireCodec_default (snd (fire_encode (response serialize_vec h value) []) @ rest) =
    Ret (Inr (Some
      \<lparr>header = \<lparr>hdr_length = length (serialize_vec value), hdr_component = hdr_component h,
                 hdr_command = hdr_command h, hdr_error = 0, hdr_ty = Response,
                 hdr_options = 0, hdr_seq = hdr_seq h\<rparr>,
       contents = serialize_vec value\<rparr>), FireCodec_default, rest)"
proof -
  have "fire_wf (response serialize_vec h value)"
    using assms by (simp add: fire_wf_def response_def response_raw_def)
  moreover have "12 \<le> length (fire_wire (response serialize_vec h value) @ rest)"
    by (simp add: fire_wire_def)
  ultimately have "fire_decode FireCodec_default (fire_wire (response serialize_vec h value) @ rest) =
      Ret (Inr (Some (response serialize_vec h value)), FireCodec_default, rest)"
    by (rule fire.decode_wire)
  then show ?thesis
    by (simp add: fire_encode_eq response_def response_raw_def)
qed

theorem fire_response_decodes_witness:
  "fire_decode FireCodec_default
     (snd (fire_encode (response (\<lambda>v. [v, v]) (header sample_frame) 9) []) @ [1]) =
    Ret (Inr (Some
      \<lparr>header = \<lparr>hdr_length = 2, hdr_component = 5, hdr_command = 1, hdr_error = 0,
                 hdr_ty = Response, hdr_options = 0, hdr_seq = 258\<rparr>,
       contents = [9, 9]\<rparr>), FireCodec_default, [1])"
  using fire_response_decodes [of "\<lambda>v. [v, v]" "9 :: u8" "header sample_frame" "[1]"]
  by (simp add: sample_frame_def)

text \<open>Contents of 65536 bytes or more are sent with a length field that has lost its high bits:
  the peer takes a shorter frame and reads the rest of the contents as the next frame.\<close>
theorem fire_response_length_wraps:
  assumes "length cs = 65536 + n" and "n < 65536"
  shows "\<exists>frame. fire_decode FireCodec_default (snd (fire_encode (response_raw h cs) [])) =
      Ret (Inr (Some frame), FireCodec_default, drop n cs) \<and> contents frame = take n cs"
proof -
  let ?h = "(header (response_raw h cs))\<lparr>hdr_length := n\<rparr>"
  have wrap: "(word_of_nat (65536 + n) :: u16) = word_of_nat n"
    using assms(2) by (simp add: word_unat_eq_iff unat_word_of_nat_u16_mod del: of_nat_add of_nat_numeral)
  have "fire_wire_header (header (response_raw h cs)) = fire_wire_header ?h"
    using assms wrap by (simp add: fire_wire_header_def response_raw_def del: of_nat_add of_nat_numeral)
  moreover have "fire_read_header (fire_wire_header ?h @ cs) = Ret (?h, cs)"
    by (rule fire_read_header_wire) (simp_all add: assms(2) response_raw_def)
  ultimately have "fire_parse_header (fire_wire (response_raw h cs)) = ?h"
    using fire_read_header_eq [of "fire_wire_header ?h @ cs"]
    by (simp add: fire_wire_def response_raw_def)
  moreover have "drop 12 (fire_wire (response_raw h cs)) = cs"
    by (simp add: fire_wire_def response_raw_def)
  moreover have "12 \<le> length (fire_wire (response_raw h cs))"
    by (simp add: fire_wire_def)
  ultimately show ?thesis
    using assms by (simp add: fire_encode_eq fire_decode_eq fire_next_def FireCodec_default_def)
qed

theorem fire_response_length_wraps_witness:
  "\<exists>frame. fire_decode FireCodec_default
      (snd (fire_encode (response_raw (header sample_frame) (replicate 65537 7)) [])) =
      Ret (Inr (Some frame), FireCodec_default, drop 1 (replicate 65537 7)) \<and>
    contents frame = take 1 (replicate 65537 7)"
proof (rule fire_response_length_wraps)
  show "length (replicate 65537 (7 :: u8)) = 65536 + 1"
    by (simp only: length_replicate)
qed simp

end
