(* ===== verification/Servers.thy ===== *)
theory Servers
  imports Prelude "HOL-Library.Multiset"
begin

text \<open>
  The shared task collection and the ports of \<^verbatim>\<open>src/src/servers/mod.rs\<close>. The collection is a
  static \<^verbatim>\<open>Mutex<Vec<AbortHandle>>\<close>; every access locks it, so each access is one step. What the
  runtime knows of the tasks is \<open>tasks\<close>: a task and its abort handle are named by the position
  at which the task was spawned. By its documentation \<^verbatim>\<open>tokio::spawn\<close> starts a task, and aborting
  schedules the cancellation of a task and returns: the task stops later, when it next yields, or
  completes before that. Aborting does nothing to a task that has ended.
\<close>

section \<open>Ports\<close>

definition REDIRECTOR_PORT :: u16 where "REDIRECTOR_PORT = 42127"
definition BLAZE_PORT :: u16 where "BLAZE_PORT = 42128"
definition TELEMETRY_PORT :: u16 where "TELEMETRY_PORT = 42129"
definition QOS_PORT :: u16 where "QOS_PORT = 42130"
definition HTTP_PORT :: u16 where "HTTP_PORT = 42131"
definition TUNNEL_HOST_PORT :: u16 where "TUNNEL_HOST_PORT = 42132"
definition RANDOM_PORT :: u16 where "RANDOM_PORT = 0"
definition GAME_HOST_PORT :: u16 where "GAME_HOST_PORT = 3659"

section \<open>State and operations\<close>

datatype task_status = Running | Cancelling | Finished | Aborted

record server_state =
  collection :: "nat list"
  tasks :: "task_status list"

definition no_servers :: server_state where
  "no_servers = \<lparr>collection = [], tasks = []\<rparr>"

definition has_server_tasks :: "server_state \<Rightarrow> bool" where
  "has_server_tasks s = (collection s \<noteq> [])"

definition add_server_task :: "nat \<Rightarrow> server_state \<Rightarrow> server_state" where
  "add_server_task handle s = s\<lparr>collection := collection s @ [handle]\<rparr>"

definition tokio_spawn :: "server_state \<Rightarrow> nat \<times> server_state" where
  "tokio_spawn s = (length (tasks s), s\<lparr>tasks := tasks s @ [Running]\<rparr>)"

definition task_abort :: "nat \<Rightarrow> server_state \<Rightarrow> server_state" where
  "task_abort handle s =
     (if handle < length (tasks s) \<and> tasks s ! handle = Running
      then s\<lparr>tasks := (tasks s)[handle := Cancelling]\<rparr> else s)"

definition spawn_server_task :: "server_state \<Rightarrow> server_state" where
  "spawn_server_task s = (let (handle, s) = tokio_spawn s in add_server_task handle s)"

text \<open>\<^verbatim>\<open>split_off(0)\<close> under the lock, the aborts outside it.\<close>

definition take_server_tasks :: "server_state \<Rightarrow> nat list \<times> server_state" where
  "take_server_tasks s = (collection s, s\<lparr>collection := []\<rparr>)"

definition stop_server_tasks :: "server_state \<Rightarrow> server_state" where
  "stop_server_tasks s = (let (values, s) = take_server_tasks s in fold task_abort values s)"

section \<open>Interleavings\<close>

text \<open>
  Several threads call these functions at once. A thread is between two steps of a call: it has
  spawned a task and not yet stored the handle, or it has taken the handles and not yet called
  abort on the ones left. \<^verbatim>\<open>add_server_task\<close> is public: a caller that spawned a task of its own
  (\<open>Owned\<close>) may add its handle, or clones of it, at any time. The runtime moves on as well: a
  cancelled task stops, and a task that has not stopped may end.
\<close>

datatype server_call = Spawned nat | Aborting "nat list" | Owned nat

type_synonym server_conf = "server_state \<times> server_call multiset"

inductive server_step :: "server_conf \<Rightarrow> server_conf \<Rightarrow> bool" where
  spawn: "tokio_spawn s = (handle, s') \<Longrightarrow> server_step (s, cs) (s', add_mset (Spawned handle) cs)"
| add: "server_step (s, add_mset (Spawned handle) cs) (add_server_task handle s, cs)"
| take: "take_server_tasks s = (values, s') \<Longrightarrow> server_step (s, cs) (s', add_mset (Aborting values) cs)"
| abort: "server_step (s, add_mset (Aborting (handle # values)) cs)
    (task_abort handle s, add_mset (Aborting values) cs)"
| stopped: "server_step (s, add_mset (Aborting []) cs) (s, cs)"
| own: "tokio_spawn s = (handle, s') \<Longrightarrow> server_step (s, cs) (s', add_mset (Owned handle) cs)"
| add_owned: "Owned handle \<in># cs \<Longrightarrow> server_step (s, cs) (add_server_task handle s, cs)"
| cancel: "i < length (tasks s) \<Longrightarrow> tasks s ! i = Cancelling \<Longrightarrow>
    server_step (s, cs) (s\<lparr>tasks := (tasks s)[i := Aborted]\<rparr>, cs)"
| finish: "i < length (tasks s) \<Longrightarrow> tasks s ! i = Running \<or> tasks s ! i = Cancelling \<Longrightarrow>
    server_step (s, cs) (s\<lparr>tasks := (tasks s)[i := Finished]\<rparr>, cs)"

abbreviation server_steps :: "server_conf \<Rightarrow> server_conf \<Rightarrow> bool" where
  "server_steps \<equiv> server_step\<^sup>*\<^sup>*"

fun call_handles :: "server_call \<Rightarrow> nat multiset" where
  "call_handles (Spawned handle) = {#handle#}"
| "call_handles (Aborting values) = mset values"
| "call_handles (Owned handle) = {#}"

text \<open>All the handles there are of the collection: in it, or in the hands of a call.\<close>

definition known_handles :: "server_conf \<Rightarrow> nat multiset" where
  "known_handles c = mset (collection (fst c)) + \<Sum>\<^sub># (image_mset call_handles (snd c))"

definition running :: "server_state \<Rightarrow> nat set" where
  "running s = {i. i < length (tasks s) \<and> tasks s ! i = Running}"

text \<open>
  Every running task has a handle, but for those spawned outside; no handle is dangling, and none
  is doubled but those of tasks spawned outside.
\<close>

definition handles_ok :: "server_state \<Rightarrow> nat multiset \<Rightarrow> nat set \<Rightarrow> bool" where
  "handles_ok s hs out \<longleftrightarrow>
     running s \<subseteq> set_mset hs \<union> out \<and> set_mset hs \<union> out \<subseteq> {..<length (tasks s)} \<and>
     (\<forall>i. i \<in> out \<or> count hs i \<le> 1)"

definition outside :: "server_call multiset \<Rightarrow> nat set" where
  "outside cs = {h. Owned h \<in># cs}"

definition server_inv :: "server_conf \<Rightarrow> bool" where
  "server_inv c \<longleftrightarrow>
     handles_ok (fst c) (known_handles c) (outside (snd c)) \<and>
     (\<forall>h. Spawned h \<in># snd c \<longrightarrow> h \<notin> outside (snd c))"

lemma outside_simps [simp]:
  "outside {#} = {}"
  "outside (add_mset (Spawned h) cs) = outside cs"
  "outside (add_mset (Aborting hs) cs) = outside cs"
  "outside (add_mset (Owned h) cs) = insert h (outside cs)"
  by (auto simp: outside_def)

lemma running_simps [simp]:
  "running (s\<lparr>collection := hs\<rparr>) = running s"
  "running (s\<lparr>tasks := tasks s @ [Running]\<rparr>) = insert (length (tasks s)) (running s)"
  "running (task_abort h s) = running s - {h}"
  "length (tasks (task_abort h s)) = length (tasks s)"
  "collection (task_abort h s) = collection s"
  by (auto simp: running_def task_abort_def nth_append nth_list_update)

lemma running_update [simp]:
  assumes "st \<noteq> Running"
  shows "running (s\<lparr>tasks := (tasks s)[i := st]\<rparr>) = running s - {i}"
proof -
  have "(tasks s)[i := st] ! j = Running \<longleftrightarrow> tasks s ! j = Running \<and> j \<noteq> i"
    if "j < length (tasks s)" for j
    using that assms by (cases "j = i") simp_all
  then show ?thesis by (auto simp: running_def)
qed

lemma handles_ok_less: "handles_ok s hs out \<Longrightarrow> h \<in># hs \<or> h \<in> out \<Longrightarrow> h < length (tasks s)"
  unfolding handles_ok_def by auto

lemma handles_ok_spawn:
  assumes "handles_ok s hs out"
  shows "handles_ok (s\<lparr>tasks := tasks s @ [Running]\<rparr>) (add_mset (length (tasks s)) hs) out"
    and "handles_ok (s\<lparr>tasks := tasks s @ [Running]\<rparr>) hs (insert (length (tasks s)) out)"
proof -
  have "length (tasks s) \<notin># hs" using handles_ok_less [OF assms] by blast
  with assms show "handles_ok (s\<lparr>tasks := tasks s @ [Running]\<rparr>) (add_mset (length (tasks s)) hs) out"
    by (auto simp: handles_ok_def lessThan_Suc not_in_iff)
  from assms show "handles_ok (s\<lparr>tasks := tasks s @ [Running]\<rparr>) hs (insert (length (tasks s)) out)"
    by (auto simp: handles_ok_def lessThan_Suc)
qed

lemma handles_ok_abort: "handles_ok s (add_mset h hs) out \<Longrightarrow> handles_ok (task_abort h s) hs out"
  by (auto simp: handles_ok_def) (metis Suc_leD)

lemma handles_ok_update:
  "handles_ok s hs out \<Longrightarrow> st \<noteq> Running \<Longrightarrow> handles_ok (s\<lparr>tasks := (tasks s)[i := st]\<rparr>) hs out"
  by (auto simp: handles_ok_def)

lemma handles_ok_owned: "handles_ok s hs out \<Longrightarrow> h \<in> out \<Longrightarrow> handles_ok s (add_mset h hs) out"
  by (auto simp: handles_ok_def)

lemma handles_ok_collection [simp]: "handles_ok (s\<lparr>collection := c\<rparr>) hs out = handles_ok s hs out"
  by (simp add: handles_ok_def)

lemma Spawned_known: "Spawned h \<in># cs \<Longrightarrow> h \<in># known_handles (s, cs)"
  by (auto simp: known_handles_def intro!: bexI [of _ "Spawned h"])

lemma server_inv_step: "server_step c c' \<Longrightarrow> server_inv c \<Longrightarrow> server_inv c'"
proof (induction rule: server_step.induct)
  case (spawn s handle s' cs)
  then have "handle \<notin> outside cs"
    using handles_ok_less by (fastforce simp: server_inv_def tokio_spawn_def)
  with spawn show ?case
    by (auto simp: server_inv_def known_handles_def tokio_spawn_def dest: handles_ok_spawn(1))
next
  case (own s handle s' cs)
  then have "Spawned handle \<notin># cs"
    using handles_ok_less Spawned_known by (fastforce simp: server_inv_def tokio_spawn_def)
  with own show ?case
    by (auto simp: server_inv_def known_handles_def tokio_spawn_def dest: handles_ok_spawn(2))
next
  case (abort s handle hs cs)
  then show ?case by (simp add: server_inv_def known_handles_def handles_ok_abort)
next
  case (add_owned handle cs s)
  then show ?case
    by (simp add: server_inv_def known_handles_def add_server_task_def outside_def handles_ok_owned)
qed (auto simp: server_inv_def known_handles_def add_server_task_def take_server_tasks_def handles_ok_update)

lemma server_inv_reachable: "server_steps c c' \<Longrightarrow> server_inv c \<Longrightarrow> server_inv c'"
  by (induction rule: rtranclp_induct) (auto intro: server_inv_step)

lemma server_inv_start: "server_inv (no_servers, {#})"
  by (simp add: server_inv_def known_handles_def no_servers_def handles_ok_def running_def)

text \<open>A task that is not running never runs again, and no step runs a task but a new one.\<close>

lemma server_step_running:
  "server_step c c' \<Longrightarrow> i \<in> running (fst c') \<Longrightarrow>
   length (tasks (fst c)) \<le> length (tasks (fst c')) \<and> (i < length (tasks (fst c)) \<longrightarrow> i \<in> running (fst c))"
  by (induction rule: server_step.induct)
    (auto simp: tokio_spawn_def add_server_task_def take_server_tasks_def)

lemma server_step_length:
  "server_step c c' \<Longrightarrow> length (tasks (fst c)) \<le> length (tasks (fst c'))"
  by (induction rule: server_step.induct)
    (auto simp: tokio_spawn_def add_server_task_def take_server_tasks_def)

lemma server_steps_running:
  "server_steps c c' \<Longrightarrow> i \<in> running (fst c') \<Longrightarrow> i < length (tasks (fst c)) \<Longrightarrow> i \<in> running (fst c)"
proof (induction arbitrary: i rule: converse_rtranclp_induct)
  case (step c d)
  then show ?case using server_step_running server_step_length by (meson order_less_le_trans)
qed

section \<open>Calls that run alone\<close>

text \<open>The calls as the code composes them are sequences of steps.\<close>

lemma spawn_server_task_steps: "server_steps (s, cs) (spawn_server_task s, cs)"
  using server_step.spawn [of s _ _ cs] server_step.add [of "snd (tokio_spawn s)" _ cs]
  by (auto simp: spawn_server_task_def tokio_spawn_def intro: converse_rtranclp_into_rtranclp)

lemma abort_all_steps:
  "server_steps (s, add_mset (Aborting values) cs) (fold task_abort values s, cs)"
proof (induction "values" arbitrary: s)
  case Nil
  show ?case using server_step.stopped by auto
next
  case (Cons h hs)
  then show ?case
    using converse_rtranclp_into_rtranclp [of server_step, OF server_step.abort] by fastforce
qed

lemma stop_server_tasks_steps: "server_steps (s, cs) (stop_server_tasks s, cs)"
  using converse_rtranclp_into_rtranclp [of server_step, OF server_step.take abort_all_steps]
  by (auto simp: stop_server_tasks_def split: prod.split)

lemma running_fold_abort [simp]:
  "running (fold task_abort hs s) = running s - set hs"
  "collection (fold task_abort hs s) = collection s"
  "length (tasks (fold task_abort hs s)) = length (tasks s)"
  by (induction hs arbitrary: s) auto

lemma fold_abort_cancelling:
  "i \<in> running s \<Longrightarrow> i \<in> set hs \<Longrightarrow> tasks (fold task_abort hs s) ! i = Cancelling"
proof (induction hs arbitrary: s)
  case (Cons h hs)
  have kept: "tasks (fold task_abort hs s) ! i = Cancelling" if "tasks s ! i = Cancelling" for s
    using that by (induction hs arbitrary: s) (auto simp: task_abort_def nth_list_update)
  show ?case
  proof (cases "h = i")
    case True
    with Cons.prems(1) have "tasks (task_abort h s) ! i = Cancelling"
      by (simp add: task_abort_def running_def)
    then show ?thesis by (simp add: kept)
  next
    case False
    with Cons show ?thesis by simp
  qed
qed simp

section \<open>Properties\<close>

text \<open>C17: Under every interleaving of calls, no task that \<^verbatim>\<open>spawn_server_task\<close> has spawned is ever lost or
  doubled: while it runs its abort handle is in the collection or held by a call under way, and it has
  at most one. Every handle is that of a task that was spawned. Tasks that other callers spawned
  themselves may be added too, any number of times.\<close>
theorem server_tasks_tracked:
  assumes "server_steps (no_servers, {#}) (s, cs)"
  shows "(\<forall>i \<in> running s. i \<in> set (collection s) \<or> (\<exists>c \<in># cs. i \<in># call_handles c) \<or> Owned i \<in># cs) \<and>
    (\<forall>i \<in># known_handles (s, cs). i < length (tasks s)) \<and>
    (\<forall>i. Owned i \<in># cs \<or> count (known_handles (s, cs)) i \<le> 1)"
proof -
  from server_inv_reachable [OF assms server_inv_start]
  have "handles_ok s (known_handles (s, cs)) (outside cs)"
    by (simp add: server_inv_def)
  then show ?thesis by (auto simp: handles_ok_def known_handles_def outside_def)
qed

text \<open>Two servers, one of which has ended.\<close>

definition two_servers :: server_state where
  "two_servers = \<lparr>collection = [0, 1], tasks = [Finished, Running]\<rparr>"

lemma two_servers_reachable: "server_steps (no_servers, {#}) (two_servers, {#})"
proof -
  have "server_steps (no_servers, {#}) (spawn_server_task (spawn_server_task no_servers), {#})"
    using spawn_server_task_steps [of no_servers "{#}"]
      spawn_server_task_steps [of "spawn_server_task no_servers" "{#}"] by (rule rtranclp_trans)
  moreover have "server_step (spawn_server_task (spawn_server_task no_servers), {#}) (two_servers, {#})"
    using server_step.finish [of 0 "spawn_server_task (spawn_server_task no_servers)" "{#}"]
    by (simp add: two_servers_def spawn_server_task_def tokio_spawn_def add_server_task_def no_servers_def)
  ultimately show ?thesis by (rule rtranclp.rtrancl_into_rtrancl)
qed

theorem server_tasks_tracked_witness:
  "1 \<in> running two_servers \<and> 1 \<in> set (collection two_servers) \<and>
   count (known_handles (two_servers, {#})) 1 \<le> 1"
proof -
  have "1 \<in> running two_servers" by (simp add: running_def two_servers_def)
  with server_tasks_tracked [OF two_servers_reachable] show ?thesis by fastforce
qed

text \<open>C18: When no call is under way, stopping the servers tells every running task to stop, but for those
  that other callers spawned themselves and never added: the collection is then empty, the tasks
  have their cancellation scheduled, and in no later state, whatever is called and whatever the
  runtime does, is one of them running on.\<close>
theorem stop_server_tasks_stops_all:
  assumes "server_steps (no_servers, {#}) (s, cs)" and "\<forall>c \<in># cs. \<exists>h. c = Owned h"
  shows "\<not> has_server_tasks (stop_server_tasks s) \<and>
    (\<forall>i \<in> running s. Owned i \<in># cs \<and> i \<notin> set (collection s) \<or> tasks (stop_server_tasks s) ! i = Cancelling) \<and>
    (\<forall>s' cs' i. server_steps (stop_server_tasks s, cs) (s', cs') \<and> i < length (tasks s) \<and> i \<in> running s' \<longrightarrow>
       Owned i \<in># cs \<and> i \<notin> set (collection s))"
proof -
  have "\<Sum>\<^sub># (image_mset call_handles cs) = {#}"
    using assms(2) by (induction cs) auto
  then have run: "running s \<subseteq> set (collection s) \<union> outside cs"
    using server_inv_reachable [OF assms(1) server_inv_start]
    by (auto simp: server_inv_def known_handles_def handles_ok_def)
  then have "\<forall>i \<in> running (stop_server_tasks s). Owned i \<in># cs \<and> i \<notin> set (collection s)"
    by (auto simp: stop_server_tasks_def take_server_tasks_def outside_def)
  moreover have "length (tasks (stop_server_tasks s)) = length (tasks s)"
    by (simp add: stop_server_tasks_def take_server_tasks_def)
  ultimately have "\<forall>s' cs' i. server_steps (stop_server_tasks s, cs) (s', cs') \<and> i < length (tasks s) \<and> i \<in> running s' \<longrightarrow>
       Owned i \<in># cs \<and> i \<notin> set (collection s)"
    using server_steps_running by fastforce
  moreover have "\<forall>i \<in> running s. Owned i \<in># cs \<and> i \<notin> set (collection s) \<or> tasks (stop_server_tasks s) ! i = Cancelling"
    using run by (auto simp: stop_server_tasks_def take_server_tasks_def outside_def fold_abort_cancelling)
  ultimately show ?thesis
    by (simp add: stop_server_tasks_def take_server_tasks_def has_server_tasks_def)
qed

theorem stop_server_tasks_stops_all_witness:
  "\<not> has_server_tasks (stop_server_tasks two_servers) \<and> tasks (stop_server_tasks two_servers) ! 1 = Cancelling"
proof -
  have "1 \<in> running two_servers" by (simp add: running_def two_servers_def)
  moreover have "\<forall>c \<in># {#}. \<exists>h. c = Owned h" by simp
  ultimately show ?thesis
    using stop_server_tasks_stops_all [OF two_servers_reachable] by fastforce
qed

text \<open>C39: Stopping the servers while another thread is inside \<^verbatim>\<open>spawn_server_task\<close> misses the task of that
  thread: spawned and not yet stored, it survives the whole stop and keeps running.\<close>
theorem stop_server_tasks_misses_spawn:
  assumes "server_steps (no_servers, {#}) (s, add_mset (Spawned h) cs)" and "h \<in> running s"
  shows "h \<in> running (stop_server_tasks s) \<and>
    server_steps (s, add_mset (Spawned h) cs) (add_server_task h (stop_server_tasks s), cs)"
proof -
  from server_inv_reachable [OF assms(1) server_inv_start]
  have "count (known_handles (s, add_mset (Spawned h) cs)) h \<le> 1"
    unfolding server_inv_def handles_ok_def by auto
  then have "h \<notin> set (collection s)"
    by (simp add: known_handles_def)
  with assms(2) have "h \<in> running (stop_server_tasks s)"
    by (auto simp: stop_server_tasks_def take_server_tasks_def)
  moreover have "server_steps (s, add_mset (Spawned h) cs) (add_server_task h (stop_server_tasks s), cs)"
    using stop_server_tasks_steps server_step.add by (rule rtranclp.rtrancl_into_rtrancl)
  ultimately show ?thesis ..
qed

theorem stop_server_tasks_misses_spawn_witness:
  "\<exists>s. server_steps (no_servers, {#}) (s, {#Spawned 2#}) \<and> 2 \<in> running (stop_server_tasks s)"
proof -
  let ?s = "two_servers\<lparr>tasks := [Finished, Running, Running]\<rparr>"
  have "server_step (two_servers, {#}) (?s, {#Spawned 2#})"
    using server_step.spawn [of two_servers 2 ?s "{#}"]
    by (simp add: tokio_spawn_def two_servers_def)
  with two_servers_reachable have steps: "server_steps (no_servers, {#}) (?s, {#Spawned 2#})"
    by (rule rtranclp.rtrancl_into_rtrancl)
  have "2 \<in> running ?s" by (simp add: running_def two_servers_def)
  from stop_server_tasks_misses_spawn [OF steps this] steps show ?thesis by blast
qed

end
