(* ===== verification/Redirector.thy ===== *)
theory Redirector
  imports Fire Servers
begin

text \<open>
  The redirector of \<^verbatim>\<open>src/src/servers/redirector.rs\<close>: the loop that answers the packets of one
  connection until it has told the client where the Blaze server is. The SSL accept of
  \<^verbatim>\<open>blaze_ssl_async\<close>, the framed stream with its timeout and \<^verbatim>\<open>tdf::serialize_vec\<close> are
  parameters; the codec of the framed stream is the one of \<open>Fire\<close>.
\<close>

section \<open>The answer\<close>

text \<open>The calls on the TDF serializer that make up \<^verbatim>\<open>LocalInstanceResponse\<close>.\<close>

datatype tdf_call =
    TagUnionStart string u8
  | GroupStart string
  | TagU32 string u32
  | TagU16 string u16
  | GroupEnd
  | TagBool string bool

definition u32_from_be_bytes :: "u8 \<times> u8 \<times> u8 \<times> u8 \<Rightarrow> u32" where
  "u32_from_be_bytes bs =
     (case bs of (a, b, c, d) \<Rightarrow>
        word_of_nat (((unat a * 256 + unat b) * 256 + unat c) * 256 + unat d))"

definition LocalInstanceResponse :: "tdf_call list" where
  "LocalInstanceResponse =
     [TagUnionStart ''ADDR'' 0,
      GroupStart ''VALU'',
      TagU32 ''IP'' (u32_from_be_bytes (127, 0, 0, 1)),
      TagU16 ''PORT'' BLAZE_PORT,
      GroupEnd,
      TagBool ''SECU'' False,
      TagBool ''XDNS'' False]"

section \<open>The connection\<close>

definition REDIRECT_TIMEOUT :: nat where "REDIRECT_TIMEOUT = 60"
definition COMPONENT_REDIRECTOR :: u16 where "COMPONENT_REDIRECTOR = 5"
definition COMMAND_GET_SERVER_INSTANCE :: u16 where "COMMAND_GET_SERVER_INSTANCE = 1"

datatype RedirectError = AcceptError io_error | TimeoutError | ReadError io_error | WriteError io_error

text \<open>
  \<open>redir_try_next\<close> is the next packet within so many seconds: \<open>Inl\<close> when the time is up.
\<close>

record 'w redirect_env =
  redir_finish_accept :: "'w \<Rightarrow> (io_error + unit) \<times> 'w"
  redir_try_next :: "nat \<Rightarrow> 'w \<Rightarrow> (unit + (io_error + Frame option)) \<times> 'w"
  redir_send :: "Frame \<Rightarrow> 'w \<Rightarrow> (io_error + unit) \<times> 'w"
  redir_serialize_vec :: "tdf_call list \<Rightarrow> bytes"

definition is_instance_request :: "FrameHeader \<Rightarrow> bool" where
  "is_instance_request h \<longleftrightarrow>
     \<not> (hdr_component h \<noteq> COMPONENT_REDIRECTOR \<or> hdr_command h \<noteq> COMMAND_GET_SERVER_INSTANCE)"

partial_function (option) redirect_loop ::
  "'w redirect_env \<Rightarrow> 'w \<Rightarrow> ((RedirectError + unit) \<times> 'w) option" where
  "redirect_loop env w =
     (case redir_try_next env REDIRECT_TIMEOUT w of
        (Inl _, w) \<Rightarrow> Some (Inl TimeoutError, w)
      | (Inr (Inl e), w) \<Rightarrow> Some (Inl (ReadError e), w)
      | (Inr (Inr None), w) \<Rightarrow> Some (Inr (), w)
      | (Inr (Inr (Some packet)), w) \<Rightarrow>
          (if is_instance_request (header packet) then
             (case redir_send env (response (redir_serialize_vec env) (header packet) LocalInstanceResponse) w of
                (Inl e, w) \<Rightarrow> Some (Inl (WriteError e), w)
              | (Inr _, w) \<Rightarrow> Some (Inr (), w))
           else
             (case redir_send env (response_empty (header packet)) w of
                (Inl e, w) \<Rightarrow> Some (Inl (WriteError e), w)
              | (Inr _, w) \<Rightarrow> redirect_loop env w)))"

definition redirector_handle :: "'w redirect_env \<Rightarrow> 'w \<Rightarrow> ((RedirectError + unit) \<times> 'w) option" where
  "redirector_handle env w =
     (case redir_finish_accept env w of
        (Inl e, w) \<Rightarrow> Some (Inl (AcceptError e), w)
      | (Inr _, w) \<Rightarrow> redirect_loop env w)"

section \<open>What a client is told\<close>

text \<open>
  The two answers, field by field: an empty response, and the one that names the local Blaze
  server, 127.0.0.1 at port 42128, without SSL.
\<close>

definition empty_answer :: "FrameHeader \<Rightarrow> Frame" where
  "empty_answer h =
     \<lparr>header = \<lparr>hdr_length = 0, hdr_component = hdr_component h, hdr_command = hdr_command h,
        hdr_error = 0, hdr_ty = Response, hdr_options = 0, hdr_seq = hdr_seq h\<rparr>, contents = []\<rparr>"

definition instance_answer :: "(tdf_call list \<Rightarrow> bytes) \<Rightarrow> FrameHeader \<Rightarrow> Frame" where
  "instance_answer serialize_vec h =
     (let calls = [TagUnionStart ''ADDR'' 0, GroupStart ''VALU'', TagU32 ''IP'' 0x7F000001,
        TagU16 ''PORT'' 42128, GroupEnd, TagBool ''SECU'' False, TagBool ''XDNS'' False]
      in \<lparr>header = \<lparr>hdr_length = length (serialize_vec calls), hdr_component = 5, hdr_command = 1,
            hdr_error = 0, hdr_ty = Response, hdr_options = 0, hdr_seq = hdr_seq h\<rparr>,
          contents = serialize_vec calls\<rparr>)"

text \<open>
  The packets \<open>before\<close> arrive one after the other, none of them an instance request, and the empty
  answer to each is sent; that leads from the world \<open>w\<close> to \<open>w'\<close>.
\<close>

fun exchanges :: "'w redirect_env \<Rightarrow> Frame list \<Rightarrow> 'w \<Rightarrow> 'w \<Rightarrow> bool" where
  "exchanges env [] w w' \<longleftrightarrow> w' = w"
| "exchanges env (p # before) w w' \<longleftrightarrow>
     (case redir_try_next env 60 w of
        (Inr (Inr (Some q)), w1) \<Rightarrow>
          q = p \<and> (hdr_component (header p) \<noteq> 5 \<or> hdr_command (header p) \<noteq> 1) \<and>
          (case redir_send env (empty_answer (header p)) w1 of
             (Inr _, w2) \<Rightarrow> exchanges env before w2 w'
           | (Inl e, w2) \<Rightarrow> False)
      | _ \<Rightarrow> False)"

lemma is_instance_request_iff [simp]:
  "is_instance_request h \<longleftrightarrow> hdr_component h = 5 \<and> hdr_command h = 1"
  by (auto simp: is_instance_request_def COMPONENT_REDIRECTOR_def COMMAND_GET_SERVER_INSTANCE_def)

lemma response_empty_answer: "response_empty h = empty_answer h"
  by (simp add: response_empty_def response_raw_def empty_answer_def)

lemma response_instance_answer:
  "is_instance_request h \<Longrightarrow> response serialize_vec h LocalInstanceResponse = instance_answer serialize_vec h"
  by (simp add: response_def response_raw_def instance_answer_def LocalInstanceResponse_def
      u32_from_be_bytes_def BLAZE_PORT_def Let_def)

lemma redirect_loop_exchanges:
  "exchanges env before w w' \<Longrightarrow> redirect_loop env w = redirect_loop env w'"
proof (induction before arbitrary: w)
  case (Cons p before)
  then show ?case
    by (subst redirect_loop.simps)
      (auto simp: REDIRECT_TIMEOUT_def response_empty_answer split: prod.splits sum.splits option.splits)
qed simp

section \<open>Property\<close>

definition encode_frames :: "Frame list \<Rightarrow> bytes" where
  "encode_frames frames = fold (\<lambda>frame dst. snd (fire_encode frame dst)) frames []"

lemma answers_wf:
  "length (contents (instance_answer serialize_vec h)) < 65536 \<Longrightarrow>
   list_all fire_wf (map (\<lambda>p. empty_answer (header p)) before @ [instance_answer serialize_vec h])"
  by (simp add: fire_wf_def empty_answer_def instance_answer_def Let_def list_all_iff)

text \<open>C7: A redirector connection that is accepted answers every packet before the instance request with an
  empty response, as long as these packets arrive in time and their answers are sent. The instance
  request (component 5, command 1) it answers with the address of the local Blaze server, 127.0.0.1
  at port 42128, under the sequence number of the request; then it ends without reading on, well or,
  when that answer cannot be sent, with the write error. However the bytes of these answers are cut
  into chunks, the client's codec decodes exactly them, when the serialized address fits the 16-bit
  length of a frame. The stream and the serializer are arbitrary.\<close>
theorem redirector_redirects:
  assumes "redir_finish_accept env w0 = (Inr u, w)" and "exchanges env before w w1"
    and "redir_try_next env 60 w1 = (Inr (Inr (Some request)), w2)"
    and "hdr_component (header request) = 5" and "hdr_command (header request) = 1"
  shows "redirector_handle env w0 =
      (case redir_send env (instance_answer (redir_serialize_vec env) (header request)) w2 of
         (Inl e, w3) \<Rightarrow> Some (Inl (WriteError e), w3)
       | (Inr _, w3) \<Rightarrow> Some (Inr (), w3)) \<and>
    (length (contents (instance_answer (redir_serialize_vec env) (header request))) < 65536 \<longrightarrow>
     concat chunks = encode_frames (map (\<lambda>p. empty_answer (header p)) before @
       [instance_answer (redir_serialize_vec env) (header request)]) \<longrightarrow>
     feed fire_decode FireCodec_default [] chunks =
       Some (map (\<lambda>p. empty_answer (header p)) before @
         [instance_answer (redir_serialize_vec env) (header request)], FireCodec_default, []))"
proof (intro conjI impI)
  have "redirector_handle env w0 = redirect_loop env w1"
    using assms(1) redirect_loop_exchanges [OF assms(2)] by (simp add: redirector_handle_def)
  then show "redirector_handle env w0 =
      (case redir_send env (instance_answer (redir_serialize_vec env) (header request)) w2 of
         (Inl e, w3) \<Rightarrow> Some (Inl (WriteError e), w3)
       | (Inr _, w3) \<Rightarrow> Some (Inr (), w3))"
    using assms(3-5) by (simp add: redirect_loop.simps [of env w1] REDIRECT_TIMEOUT_def response_instance_answer)
next
  assume "length (contents (instance_answer (redir_serialize_vec env) (header request))) < 65536"
    and "concat chunks = encode_frames (map (\<lambda>p. empty_answer (header p)) before @
      [instance_answer (redir_serialize_vec env) (header request)])"
  then show "feed fire_decode FireCodec_default [] chunks =
      Some (map (\<lambda>p. empty_answer (header p)) before @
        [instance_answer (redir_serialize_vec env) (header request)], FireCodec_default, [])"
    using fire_stream [OF answers_wf] by (simp add: encode_frames_def)
qed

text \<open>
  A client that sends a ping before the request and one packet after it, which is never read. The
  world is the packets it will send and the frames it was sent.
\<close>

definition sample_packet :: "u16 \<Rightarrow> u16 \<Rightarrow> Frame" where
  "sample_packet component seq =
     \<lparr>header = \<lparr>hdr_length = 1, hdr_component = component, hdr_command = 1, hdr_error = 0,
        hdr_ty = Request, hdr_options = 0, hdr_seq = seq\<rparr>, contents = [7]\<rparr>"

definition sample_client :: "(Frame list \<times> Frame list) redirect_env" where
  "sample_client =
     \<lparr>redir_finish_accept = (\<lambda>w. (Inr (), w)),
      redir_try_next = (\<lambda>t (packets, sent). case packets of
          [] \<Rightarrow> (Inr (Inr None), ([], sent)) | p # ps \<Rightarrow> (Inr (Inr (Some p)), (ps, sent))),
      redir_send = (\<lambda>frame (packets, sent). (Inr (), (packets, sent @ [frame]))),
      redir_serialize_vec = (\<lambda>calls. replicate (length calls) 1)\<rparr>"

theorem redirector_redirects_witness:
  "redirector_handle sample_client ([sample_packet 9 1, sample_packet 5 2, sample_packet 5 3], []) =
     Some (Inr (), ([sample_packet 5 3],
       [empty_answer (header (sample_packet 9 1)),
        instance_answer (redir_serialize_vec sample_client) (header (sample_packet 5 2))])) \<and>
   feed fire_decode FireCodec_default []
     [encode_frames [empty_answer (header (sample_packet 9 1)),
        instance_answer (redir_serialize_vec sample_client) (header (sample_packet 5 2))]] =
     Some ([empty_answer (header (sample_packet 9 1)),
        instance_answer (redir_serialize_vec sample_client) (header (sample_packet 5 2))], FireCodec_default, [])"
proof -
  let ?answers = "[empty_answer (header (sample_packet 9 1)),
    instance_answer (redir_serialize_vec sample_client) (header (sample_packet 5 2))]"
  let ?w1 = "([sample_packet 5 2, sample_packet 5 3], [empty_answer (header (sample_packet 9 1))])"
  have accept: "redir_finish_accept sample_client w = (Inr (), w)" for w
    by (simp add: sample_client_def)
  have before: "exchanges sample_client [sample_packet 9 1]
      ([sample_packet 9 1, sample_packet 5 2, sample_packet 5 3], []) ?w1"
    by (simp add: sample_client_def) (simp add: sample_packet_def)
  have request: "redir_try_next sample_client 60 ?w1 =
      (Inr (Inr (Some (sample_packet 5 2))), ([sample_packet 5 3], [empty_answer (header (sample_packet 9 1))]))"
    by (simp add: sample_client_def)
  have kind: "hdr_component (header (sample_packet 5 2)) = 5" "hdr_command (header (sample_packet 5 2)) = 1"
    by (simp_all add: sample_packet_def)
  note redirected = redirector_redirects [OF accept before request kind, of "[encode_frames ?answers]"]
  have "length (contents (instance_answer (redir_serialize_vec sample_client) (header (sample_packet 5 2)))) < 65536"
    by (simp add: instance_answer_def sample_client_def)
  moreover have "redir_send sample_client f (packets, sent) = (Inr (), (packets, sent @ [f]))" for f packets sent
    by (simp add: sample_client_def)
  ultimately show ?thesis using redirected by simp
qed

end
