(* ===== verification/Poll_Loop.thy ===== *)
theory Poll_Loop
  imports Prelude
begin

text \<open>
  The shape of the four hand-written futures of the client (the two tunnels and their two
  sockets): \<^verbatim>\<open>poll\<close> runs a \<^verbatim>\<open>while let Poll::Ready(..) = ..\<close> loop for the write half, then
  one for the read half, and answers \<^verbatim>\<open>Poll::Pending\<close> when both loops are done. The loops
  may run forever, so they are \<^const>\<open>while_option\<close>.
\<close>

section \<open>Traces\<close>

text \<open>What the calls recorded in a trace contribute, in order.\<close>

definition over_trace :: "('e \<Rightarrow> 'a list) \<Rightarrow> 'e list \<Rightarrow> 'a list" where
  "over_trace f tr = concat (map f tr)"

lemma over_trace_simps [simp]:
  "over_trace f [] = []"
  "over_trace f (tr @ tr') = over_trace f tr @ over_trace f tr'"
  "over_trace f (e # tr) = f e @ over_trace f tr"
  by (simp_all add: over_trace_def)

text \<open>
  A source of wake-ups is armed when the last call to it answered pending: then, by the contract
  of \<^verbatim>\<open>Future::poll\<close>, it wakes the task when it can go on.
\<close>

fun last_of :: "('e \<Rightarrow> bool) \<Rightarrow> 'e list \<Rightarrow> 'e option" where
  "last_of p [] = None"
| "last_of p (e # tr) = (case last_of p tr of Some x \<Rightarrow> Some x | None \<Rightarrow> if p e then Some e else None)"

lemma last_of_append [simp]:
  "last_of p (tr @ tr') = (case last_of p tr' of Some x \<Rightarrow> Some x | None \<Rightarrow> last_of p tr)"
  by (induction tr) (auto split: option.splits)

section \<open>While-let loops\<close>

text \<open>
  One turn of a loop: go round again, leave the loop, return from the enclosing \<^verbatim>\<open>poll\<close>, or
  panic; with the state after it.
\<close>

datatype 's flow = Again (flow_state: 's) | Break (flow_state: 's) | Return (flow_state: 's)
  | Abort string (flow_state: 's)

fun is_again :: "'s flow \<Rightarrow> bool" where
  "is_again (Again s) = True"
| "is_again _ = False"

definition while_let :: "('s \<Rightarrow> 's flow) \<Rightarrow> 's \<Rightarrow> 's flow option" where
  "while_let step s = while_option is_again (\<lambda>r. step (flow_state r)) (step s)"

text \<open>The \<^verbatim>\<open>poll\<close> of a future: its write loop, then its read loop.\<close>

definition poll_future ::
  "('s \<Rightarrow> 's flow) \<Rightarrow> ('s \<Rightarrow> 's flow) \<Rightarrow> 's \<Rightarrow> (unit poll outcome \<times> 's) option" where
  "poll_future wstep rstep s =
     (case while_let wstep s of
        None \<Rightarrow> None
      | Some (Return s) \<Rightarrow> Some (Ret (Ready ()), s)
      | Some (Abort msg s) \<Rightarrow> Some (Panic msg, s)
      | Some r \<Rightarrow>
          (case while_let rstep (flow_state r) of
             None \<Rightarrow> None
           | Some (Return s) \<Rightarrow> Some (Ret (Ready ()), s)
           | Some (Abort msg s) \<Rightarrow> Some (Panic msg, s)
           | Some r \<Rightarrow> Some (Ret Pending, flow_state r)))"

lemma while_let_unfold:
  "while_let step s =
     (case step s of Again s' \<Rightarrow> while_let step s' | r \<Rightarrow> Some r)"
  unfolding while_let_def by (subst while_option_unfold) (simp split: flow.splits)

text \<open>What a turn establishes: one predicate for each way it can end.\<close>

fun flow_sat ::
  "('s \<Rightarrow> bool) \<Rightarrow> ('s \<Rightarrow> bool) \<Rightarrow> ('s \<Rightarrow> bool) \<Rightarrow> (string \<Rightarrow> 's \<Rightarrow> bool) \<Rightarrow> 's flow \<Rightarrow> bool" where
  "flow_sat again brk ret pnc (Again s) = again s"
| "flow_sat again brk ret pnc (Break s) = brk s"
| "flow_sat again brk ret pnc (Return s) = ret s"
| "flow_sat again brk ret pnc (Abort msg s) = pnc msg s"

text \<open>The same for a turn that never panics.\<close>

abbreviation flow_all :: "('s \<Rightarrow> bool) \<Rightarrow> ('s \<Rightarrow> bool) \<Rightarrow> ('s \<Rightarrow> bool) \<Rightarrow> 's flow \<Rightarrow> bool" where
  "flow_all again brk ret \<equiv> flow_sat again brk ret (\<lambda>_ _. False)"

lemma while_let_rule:
  assumes step: "\<And>s. I s \<Longrightarrow> flow_sat I brk ret pnc (step s)"
    and result: "while_let step s = Some r" and start: "I s"
  shows "flow_sat (\<lambda>_. False) brk ret pnc r"
proof -
  have "flow_sat I brk ret pnc r"
    using _ result [unfolded while_let_def] step [OF start]
    by (rule while_option_rule) (use step in \<open>auto elim: is_again.elims\<close>)
  moreover have "\<not> is_again r"
    using result unfolding while_let_def by (rule while_option_stop)
  ultimately show ?thesis by (cases r) auto
qed

lemma while_let_total:
  assumes step: "\<And>s. I s \<Longrightarrow> flow_sat I brk ret pnc (step s)"
    and less: "\<And>s s'. I s \<Longrightarrow> step s = Again s' \<Longrightarrow> (mu s' :: nat) < mu s"
    and start: "I s"
  shows "\<exists>r. while_let step s = Some r"
  using start
proof (induction "mu s" arbitrary: s rule: less_induct)
  case less
  show ?case
  proof (cases "step s")
    case (Again s')
    with step [OF less.prems] have "I s'" by simp
    with Again less assms(2) [OF less.prems Again] show ?thesis
      by (simp add: while_let_unfold [of step s])
  qed (simp_all add: while_let_unfold [of step s])
qed

text \<open>A hypothesis on the environment is carried along as a part of every predicate.\<close>

lemma flow_sat_conj:
  "K \<Longrightarrow> flow_sat P Q R S r \<Longrightarrow> flow_sat (\<lambda>s. P s \<and> K) (\<lambda>s. Q s \<and> K) R S r"
  by (cases r) simp_all

lemma flow_sat_True: "K \<Longrightarrow> flow_sat (\<lambda>_. K) (\<lambda>_. K) (\<lambda>_. True) (\<lambda>_ _. True) r"
  by (cases r) simp_all

section \<open>Futures with an invariant\<close>

text \<open>
  A future whose write loop keeps \<open>winv\<close> and hands over \<open>rinv\<close>, and whose read loop keeps
  \<open>rinv\<close> and is left with \<open>post\<close>; whichever loop returns leaves \<open>fin\<close>, and whichever panics
  leaves \<open>pnc\<close>.
\<close>

locale poll_outcomes =
  fixes wstep rstep :: "'s \<Rightarrow> 's flow"
    and winv rinv post fin :: "'s \<Rightarrow> bool"
    and pnc :: "string \<Rightarrow> 's \<Rightarrow> bool"
  assumes wstep_ok: "winv s \<Longrightarrow> flow_sat winv rinv fin pnc (wstep s)"
    and rstep_ok: "rinv s \<Longrightarrow> flow_sat rinv post fin pnc (rstep s)"
begin

lemma poll_sat:
  assumes "winv s" and "poll_future wstep rstep s = Some (r, s')"
  shows "r = Ret Pending \<and> post s' \<or> r = Ret (Ready ()) \<and> fin s' \<or>
    (\<exists>msg. r = Panic msg \<and> pnc msg s')"
proof -
  from assms(2) obtain rw where w: "while_let wstep s = Some rw"
    by (auto simp: poll_future_def split: option.splits)
  have rw: "flow_sat (\<lambda>_. False) rinv fin pnc rw"
    by (rule while_let_rule [of winv, OF wstep_ok w assms(1)])
  show ?thesis
  proof (cases rw)
    case (Break t)
    with assms(2) w obtain rr where r: "while_let rstep t = Some rr"
      by (auto simp: poll_future_def split: option.splits)
    from Break rw have "rinv t" by simp
    from while_let_rule [of rinv, OF rstep_ok r this]
    show ?thesis
      using assms(2) w r Break by (cases rr) (auto simp: poll_future_def)
  qed (use assms(2) w rw in \<open>auto simp: poll_future_def\<close>)
qed

end

text \<open>A future none of whose turns panics.\<close>

locale poll_loops = poll_outcomes wstep rstep winv rinv post fin "\<lambda>_ _. False"
  for wstep rstep :: "'s \<Rightarrow> 's flow" and winv rinv post fin :: "'s \<Rightarrow> bool"
begin

lemma poll_ok:
  "winv s \<Longrightarrow> poll_future wstep rstep s = Some (r, s') \<Longrightarrow>
   r = Ret Pending \<and> post s' \<or> r = Ret (Ready ()) \<and> fin s'"
  using poll_sat by blast

end

text \<open>A future with measures the turns decrease: then \<^verbatim>\<open>poll\<close> returns.\<close>

locale poll_terminates = poll_outcomes wstep rstep winv rinv post fin pnc
  for wstep rstep :: "'s \<Rightarrow> 's flow" and winv rinv post fin :: "'s \<Rightarrow> bool"
    and pnc :: "string \<Rightarrow> 's \<Rightarrow> bool" +
  fixes wmu rmu :: "'s \<Rightarrow> nat"
  assumes wstep_less: "winv s \<Longrightarrow> wstep s = Again s' \<Longrightarrow> wmu s' < wmu s"
    and rstep_less: "rinv s \<Longrightarrow> rstep s = Again s' \<Longrightarrow> rmu s' < rmu s"
begin

lemma poll_returns:
  assumes "winv s"
  shows "\<exists>r s'. poll_future wstep rstep s = Some (r, s')"
proof -
  obtain rw where w: "while_let wstep s = Some rw"
    using while_let_total [of winv rinv fin pnc wstep wmu, OF wstep_ok wstep_less assms] by blast
  have rw: "flow_sat (\<lambda>_. False) rinv fin pnc rw"
    by (rule while_let_rule [of winv, OF wstep_ok w assms])
  show ?thesis
  proof (cases rw)
    case (Break t)
    with rw have "rinv t" by simp
    then obtain rr where "while_let rstep t = Some rr"
      using while_let_total [of rinv post fin pnc rstep rmu, OF rstep_ok rstep_less] by blast
    with w Break show ?thesis by (simp add: poll_future_def split: flow.split)
  qed (use w rw in \<open>simp_all add: poll_future_def\<close>)
qed

end

end
