(* ===== verification/Pool_Socket.thy ===== *)
theory Pool_Socket
  imports Poll_Loop
begin

text \<open>
  The \<^verbatim>\<open>Socket\<close> future of the local socket pool. \<^verbatim>\<open>src/src/servers/tunnel.rs\<close> and
  \<^verbatim>\<open>src/src/servers/udp_tunnel.rs\<close> hold the same code at different message types: what the
  socket's channel carries and what the tunnel's channel carries. The two types are \<open>'i\<close> and
  \<open>'o\<close> here, with \<open>payload\<close> (the bytes to send) and \<open>wrap\<close> (the message for the tunnel) as
  arguments; the theories \<open>Tunnel_Socket\<close> and \<open>Udp_Socket\<close> give them.

  As in \<open>Tunnel\<close>, tokio's operations are functions on a world and every call is recorded.
\<close>

section \<open>State\<close>

datatype SocketWriteState = SockRecv | SockWrite bytes | SockStop

datatype SocketReadState = SockReadContinue | SockReadStop

definition READ_BUFFER_LENGTH :: nat where
  "READ_BUFFER_LENGTH = 2 ^ 16"

record ('i, 'o, 'w) socket_env =
  sock_rx_poll_recv :: "'w \<Rightarrow> 'i option poll \<times> 'w"
  sock_poll_send :: "bytes \<Rightarrow> 'w \<Rightarrow> (io_error + nat) poll \<times> 'w"
  sock_poll_recv :: "nat \<Rightarrow> 'w \<Rightarrow> (io_error + bytes) poll \<times> 'w"
  sock_tun_send :: "'o \<Rightarrow> 'w \<Rightarrow> bool \<times> 'w"

datatype ('i, 'o) socket_event =
    SockRxPollRecv "'i option poll"
  | SockPollSend bytes "(io_error + nat) poll"
  | SockPollRecv "(io_error + bytes) poll"
  | SockTunSend 'o bool

record ('i, 'o, 'w) Socket =
  sock_index :: u8
  sock_write_state :: SocketWriteState
  sock_world :: 'w
  sock_trace :: "('i, 'o) socket_event list"

definition sock_call ::
  "('w \<Rightarrow> 'r \<times> 'w) \<Rightarrow> ('r \<Rightarrow> ('i, 'o) socket_event) \<Rightarrow> ('i, 'o, 'w) Socket \<Rightarrow> 'r \<times> ('i, 'o, 'w) Socket" where
  "sock_call f event this =
     (let (r, w) = f (sock_world this)
      in (r, this\<lparr>sock_world := w, sock_trace := sock_trace this @ [event r]\<rparr>))"

section \<open>The write half\<close>

definition socket_poll_write_state ::
  "('i \<Rightarrow> bytes) \<Rightarrow> ('i, 'o, 'w) socket_env \<Rightarrow> ('i, 'o, 'w) Socket \<Rightarrow>
   SocketWriteState poll outcome \<times> ('i, 'o, 'w) Socket" where
  "socket_poll_write_state payload env this =
     (case sock_write_state this of
        SockRecv \<Rightarrow>
          (case sock_call (sock_rx_poll_recv env) SockRxPollRecv this of
             (Pending, this) \<Rightarrow> (Ret Pending, this)
           | (Ready (Some message), this) \<Rightarrow> (Ret (Ready (SockWrite (payload message))), this)
           | (Ready None, this) \<Rightarrow> (Ret (Ready SockStop), this))
      | SockWrite message \<Rightarrow>
          (case sock_call (sock_poll_send env message) (SockPollSend message) this of
             (Pending, this) \<Rightarrow> (Ret Pending, this)
           | (Ready (Inl e), this) \<Rightarrow> (Ret (Ready SockStop), this)
           | (Ready (Inr count), this) \<Rightarrow>
               if count \<noteq> length message then
                 if count \<le> length message then (Ret (Ready (SockWrite (drop count message))), this)
                 else (Panic ''range start out of bounds'', this)
               else (Ret (Ready SockRecv), this))
      | SockStop \<Rightarrow> (Panic ''Tunnel socket polled after already stopped'', this))"

section \<open>The read half\<close>

definition socket_poll_read_state ::
  "(u8 \<Rightarrow> bytes \<Rightarrow> 'o) \<Rightarrow> ('i, 'o, 'w) socket_env \<Rightarrow> ('i, 'o, 'w) Socket \<Rightarrow>
   SocketReadState poll outcome \<times> ('i, 'o, 'w) Socket" where
  "socket_poll_read_state wrap env this =
     (case sock_call (sock_poll_recv env READ_BUFFER_LENGTH) SockPollRecv this of
        (Pending, this) \<Rightarrow> (Ret Pending, this)
      | (Ready (Inl e), this) \<Rightarrow> (Ret (Ready SockReadStop), this)
      | (Ready (Inr bs), this) \<Rightarrow>
          (let message = wrap (sock_index this) bs;
               (is_ok, this) = sock_call (sock_tun_send env message) (SockTunSend message) this
           in (Ret (Ready (if is_ok then SockReadContinue else SockReadStop)), this)))"

section \<open>The future\<close>

definition socket_write_step ::
  "('i \<Rightarrow> bytes) \<Rightarrow> ('i, 'o, 'w) socket_env \<Rightarrow> ('i, 'o, 'w) Socket \<Rightarrow> ('i, 'o, 'w) Socket flow" where
  "socket_write_step payload env this =
     (case socket_poll_write_state payload env this of
        (Panic msg, this) \<Rightarrow> Abort msg this
      | (Ret (Ready next_state), this) \<Rightarrow>
          (let this = this\<lparr>sock_write_state := next_state\<rparr>
           in if next_state = SockStop then Return this else Again this)
      | (Ret Pending, this) \<Rightarrow> Break this)"

definition socket_read_step ::
  "(u8 \<Rightarrow> bytes \<Rightarrow> 'o) \<Rightarrow> ('i, 'o, 'w) socket_env \<Rightarrow> ('i, 'o, 'w) Socket \<Rightarrow> ('i, 'o, 'w) Socket flow" where
  "socket_read_step wrap env this =
     (case socket_poll_read_state wrap env this of
        (Panic msg, this) \<Rightarrow> Abort msg this
      | (Ret (Ready next_state), this) \<Rightarrow>
          (if next_state = SockReadStop then Return this else Again this)
      | (Ret Pending, this) \<Rightarrow> Break this)"

definition socket_poll ::
  "('i \<Rightarrow> bytes) \<Rightarrow> (u8 \<Rightarrow> bytes \<Rightarrow> 'o) \<Rightarrow> ('i, 'o, 'w) socket_env \<Rightarrow> ('i, 'o, 'w) Socket \<Rightarrow>
   (unit poll outcome \<times> ('i, 'o, 'w) Socket) option" where
  "socket_poll payload wrap env =
     poll_future (socket_write_step payload env) (socket_read_step wrap env)"

text \<open>The socket task as \<^verbatim>\<open>Socket::start\<close> spawns it, and its life under repeated polls.\<close>

definition new_socket :: "u8 \<Rightarrow> 'w \<Rightarrow> ('i, 'o, 'w) Socket" where
  "new_socket index w =
     \<lparr>sock_index = index, sock_write_state = SockRecv, sock_world = w, sock_trace = []\<rparr>"

inductive socket_live ::
  "('i \<Rightarrow> bytes) \<Rightarrow> (u8 \<Rightarrow> bytes \<Rightarrow> 'o) \<Rightarrow> ('i, 'o, 'w) socket_env \<Rightarrow> ('i, 'o, 'w) Socket \<Rightarrow> bool"
  for payload wrap env where
  start: "socket_live payload wrap env (new_socket index w)"
| again: "socket_live payload wrap env t \<Longrightarrow> socket_poll payload wrap env t = Some (Ret Pending, t') \<Longrightarrow>
    socket_live payload wrap env (t'\<lparr>sock_world := w\<rparr>)"

section \<open>What the trace says\<close>

fun sock_taken :: "('i, 'o) socket_event \<Rightarrow> 'i list" where
  "sock_taken (SockRxPollRecv (Ready (Some m))) = [m]"
| "sock_taken _ = []"

text \<open>Each datagram that was sent, cut to the bytes the socket accepted.\<close>

fun sock_sent :: "('i, 'o) socket_event \<Rightarrow> bytes list" where
  "sock_sent (SockPollSend bs (Ready (Inr n))) = [take n bs]"
| "sock_sent _ = []"

fun sock_received :: "('i, 'o) socket_event \<Rightarrow> bytes list" where
  "sock_received (SockPollRecv (Ready (Inr bs))) = [bs]"
| "sock_received _ = []"

fun sock_forwarded :: "('i, 'o) socket_event \<Rightarrow> 'o list" where
  "sock_forwarded (SockTunSend m ok) = [m]"
| "sock_forwarded _ = []"

text \<open>No send of the trace was short: each accepted the whole datagram.\<close>

fun short_send :: "('i, 'o) socket_event \<Rightarrow> bool" where
  "short_send (SockPollSend bs (Ready (Inr n))) = (n \<noteq> length bs)"
| "short_send _ = False"

fun sock_held :: "SocketWriteState \<Rightarrow> bytes list" where
  "sock_held (SockWrite bs) = [bs]"
| "sock_held _ = []"

section \<open>Invariants\<close>

text \<open>\<^verbatim>\<open>UdpSocket::poll_send\<close> answers how many of the bytes it was given were sent.\<close>

definition sends_within :: "('i, 'o, 'w) socket_env \<Rightarrow> bool" where
  "sends_within env \<longleftrightarrow> (\<forall>bs w n. fst (sock_poll_send env bs w) = Ready (Inr n) \<longrightarrow> n \<le> length bs)"

text \<open>
  The bytes sent to the game are the payloads taken from the tunnel, in order, but for a suffix of
  the last one; where no send was short, they are sent datagram by datagram; and each datagram received is forwarded to the tunnel
  under the index of the socket.
\<close>

definition sock_out_bytes :: "('i \<Rightarrow> bytes) \<Rightarrow> bytes list \<Rightarrow> ('i, 'o) socket_event list \<Rightarrow> bool" where
  "sock_out_bytes payload held tr \<longleftrightarrow>
     concat (map payload (over_trace sock_taken tr)) = concat (over_trace sock_sent tr) @ concat held \<and>
     (\<forall>h \<in> set held. over_trace sock_taken tr \<noteq> [] \<and> suffix h (payload (last (over_trace sock_taken tr))))"

definition sock_out_datagrams :: "('i \<Rightarrow> bytes) \<Rightarrow> bytes list \<Rightarrow> ('i, 'o) socket_event list \<Rightarrow> bool" where
  "sock_out_datagrams payload held tr \<longleftrightarrow>
     list_ex short_send tr \<or> map payload (over_trace sock_taken tr) = over_trace sock_sent tr @ held"

definition sock_in_wrapped :: "(u8 \<Rightarrow> bytes \<Rightarrow> 'o) \<Rightarrow> u8 \<Rightarrow> ('i, 'o) socket_event list \<Rightarrow> bool" where
  "sock_in_wrapped wrap index tr \<longleftrightarrow>
     over_trace sock_forwarded tr = map (wrap index) (over_trace sock_received tr)"

lemmas sock_trace_defs = sock_out_bytes_def sock_out_datagrams_def sock_in_wrapped_def

definition sock_inv ::
  "('i \<Rightarrow> bytes) \<Rightarrow> (u8 \<Rightarrow> bytes \<Rightarrow> 'o) \<Rightarrow> ('i, 'o, 'w) socket_env \<Rightarrow> ('i, 'o, 'w) Socket \<Rightarrow> bool" where
  "sock_inv payload wrap env this \<longleftrightarrow>
     sends_within env \<and> sock_write_state this \<noteq> SockStop \<and>
     sock_out_bytes payload (sock_held (sock_write_state this)) (sock_trace this) \<and>
     sock_out_datagrams payload (sock_held (sock_write_state this)) (sock_trace this) \<and>
     sock_in_wrapped wrap (sock_index this) (sock_trace this)"

fun is_SockRxPollRecv :: "('i, 'o) socket_event \<Rightarrow> bool" where
  "is_SockRxPollRecv (SockRxPollRecv r) = True"
| "is_SockRxPollRecv _ = False"

fun is_SockPollSend :: "('i, 'o) socket_event \<Rightarrow> bool" where
  "is_SockPollSend (SockPollSend bs r) = True"
| "is_SockPollSend _ = False"

fun is_SockPollRecv :: "('i, 'o) socket_event \<Rightarrow> bool" where
  "is_SockPollRecv (SockPollRecv r) = True"
| "is_SockPollRecv _ = False"

text \<open>The source that each half waits for is armed.\<close>

fun sock_write_armed :: "SocketWriteState \<Rightarrow> ('i, 'o) socket_event list \<Rightarrow> bool" where
  "sock_write_armed SockRecv tr \<longleftrightarrow> last_of is_SockRxPollRecv tr = Some (SockRxPollRecv Pending)"
| "sock_write_armed (SockWrite bs) tr \<longleftrightarrow> last_of is_SockPollSend tr = Some (SockPollSend bs Pending)"
| "sock_write_armed SockStop tr \<longleftrightarrow> False"

definition sock_read_armed :: "('i, 'o) socket_event list \<Rightarrow> bool" where
  "sock_read_armed tr \<longleftrightarrow> last_of is_SockPollRecv tr = Some (SockPollRecv Pending)"

definition sock_mid ::
  "('i \<Rightarrow> bytes) \<Rightarrow> (u8 \<Rightarrow> bytes \<Rightarrow> 'o) \<Rightarrow> ('i, 'o, 'w) socket_env \<Rightarrow> ('i, 'o, 'w) Socket \<Rightarrow> bool" where
  "sock_mid payload wrap env this \<longleftrightarrow>
     sock_inv payload wrap env this \<and> sock_write_armed (sock_write_state this) (sock_trace this)"

definition sock_post ::
  "('i \<Rightarrow> bytes) \<Rightarrow> (u8 \<Rightarrow> bytes \<Rightarrow> 'o) \<Rightarrow> ('i, 'o, 'w) socket_env \<Rightarrow> ('i, 'o, 'w) Socket \<Rightarrow> bool" where
  "sock_post payload wrap env this \<longleftrightarrow>
     sock_mid payload wrap env this \<and> sock_read_armed (sock_trace this)"

definition sock_fin ::
  "('i \<Rightarrow> bytes) \<Rightarrow> (u8 \<Rightarrow> bytes \<Rightarrow> 'o) \<Rightarrow> ('i, 'o, 'w) Socket \<Rightarrow> bool" where
  "sock_fin payload wrap this \<longleftrightarrow>
     (\<exists>lost. length lost \<le> 1 \<and> sock_out_bytes payload lost (sock_trace this) \<and>
        sock_out_datagrams payload lost (sock_trace this)) \<and>
     sock_in_wrapped wrap (sock_index this) (sock_trace this)"

text \<open>How the trace predicates change with each event.\<close>

fun sock_quiet :: "('i, 'o) socket_event \<Rightarrow> bool" where
  "sock_quiet (SockRxPollRecv (Ready (Some m))) = False"
| "sock_quiet (SockPollSend bs (Ready (Inr n))) = False"
| "sock_quiet (SockPollRecv (Ready (Inr bs))) = False"
| "sock_quiet (SockTunSend m ok) = False"
| "sock_quiet _ = True"

lemma sock_quiet_events:
  "sock_quiet e \<Longrightarrow> sock_taken e = [] \<and> sock_sent e = [] \<and> sock_received e = [] \<and>
     sock_forwarded e = [] \<and> \<not> short_send e"
  by (cases e rule: sock_quiet.cases) simp_all

lemma sock_trace_quiet [simp]:
  assumes "sock_quiet e"
  shows "sock_out_bytes payload held (tr @ [e]) = sock_out_bytes payload held tr"
    and "sock_out_datagrams payload held (tr @ [e]) = sock_out_datagrams payload held tr"
    and "sock_in_wrapped wrap index (tr @ [e]) = sock_in_wrapped wrap index tr"
  using sock_quiet_events [OF assms] by (simp_all add: sock_trace_defs)

lemma sock_trace_taken [simp]:
  "sock_out_bytes payload [] tr \<Longrightarrow> sock_out_bytes payload [payload m] (tr @ [SockRxPollRecv (Ready (Some m))])"
  "sock_out_datagrams payload [payload m] (tr @ [SockRxPollRecv (Ready (Some m))]) =
     sock_out_datagrams payload [] tr"
  "sock_in_wrapped wrap index (tr @ [SockRxPollRecv (Ready (Some m))]) = sock_in_wrapped wrap index tr"
  by (auto simp: sock_trace_defs)

lemma sock_trace_sent [simp]:
  "n \<le> length bs \<Longrightarrow> sock_out_bytes payload [bs] tr \<Longrightarrow>
     sock_out_bytes payload [drop n bs] (tr @ [SockPollSend bs (Ready (Inr n))])"
  "sock_out_bytes payload [bs] tr \<Longrightarrow> sock_out_bytes payload [] (tr @ [SockPollSend bs (Ready (Inr (length bs)))])"
  "n \<noteq> length bs \<Longrightarrow> sock_out_datagrams payload held (tr @ [SockPollSend bs (Ready (Inr n))])"
  "sock_out_datagrams payload [] (tr @ [SockPollSend bs (Ready (Inr (length bs)))]) =
     sock_out_datagrams payload [bs] tr"
  "sock_in_wrapped wrap index (tr @ [SockPollSend bs (Ready (Inr n))]) = sock_in_wrapped wrap index tr"
  by (auto simp: sock_trace_defs intro: suffix_order.trans [OF suffix_drop])

lemma sock_trace_forwarded [simp]:
  "sock_out_bytes payload held (tr @ [SockPollRecv (Ready (Inr bs)), SockTunSend m ok]) =
     sock_out_bytes payload held tr"
  "sock_out_datagrams payload held (tr @ [SockPollRecv (Ready (Inr bs)), SockTunSend m ok]) =
     sock_out_datagrams payload held tr"
  "sock_in_wrapped wrap index (tr @ [SockPollRecv (Ready (Inr bs)), SockTunSend (wrap index bs) ok]) =
     sock_in_wrapped wrap index tr"
  by (auto simp: sock_trace_defs)

lemma sock_finI:
  "sock_out_bytes payload held (sock_trace t) \<Longrightarrow> sock_out_datagrams payload held (sock_trace t) \<Longrightarrow>
   length held \<le> 1 \<Longrightarrow> sock_in_wrapped wrap (sock_index t) (sock_trace t) \<Longrightarrow> sock_fin payload wrap t"
  unfolding sock_fin_def by blast

lemma sock_held_length: "length (sock_held st) \<le> 1"
  by (cases st) auto

lemma sock_inv_fin: "sock_inv payload wrap env t \<Longrightarrow> sock_fin payload wrap t"
  unfolding sock_inv_def using sock_finI sock_held_length by blast

section \<open>The loops keep the invariant\<close>

lemma sends_withinD: "sends_within env \<Longrightarrow> sock_poll_send env bs w = (Ready (Inr n), w') \<Longrightarrow> n \<le> length bs"
  unfolding sends_within_def by (metis fst_conv)

lemma socket_write_step_ok:
  assumes "sock_inv payload wrap env t"
  shows "flow_all (sock_inv payload wrap env) (sock_mid payload wrap env) (sock_fin payload wrap)
    (socket_write_step payload env t)"
proof (cases "sock_write_state t")
  case SockRecv
  with assms show ?thesis
    by (auto simp: socket_write_step_def socket_poll_write_state_def sock_call_def sock_inv_def
      sock_mid_def sock_finI [of _ "[]"] split: prod.splits poll.splits option.splits)
next
  case (SockWrite bs)
  obtain r w where call: "sock_poll_send env bs (sock_world t) = (r, w)"
    by (meson surj_pair)
  have len: "n \<le> length bs" if "r = Ready (Inr n)" for n
    using assms call that sends_withinD by (fastforce simp: sock_inv_def)
  from SockWrite assms call len show ?thesis
    by (auto simp: socket_write_step_def socket_poll_write_state_def sock_call_def sock_inv_def
      sock_mid_def sock_finI [of _ "[bs]"] split: poll.splits sum.splits)
next
  case SockStop
  with assms show ?thesis by (simp add: sock_inv_def)
qed

lemma sock_write_armed_append [simp]:
  "sock_write_armed st (tr @ [SockPollRecv r]) = sock_write_armed st tr"
  "sock_write_armed st (tr @ [SockPollRecv r, SockTunSend m ok]) = sock_write_armed st tr"
  by (cases st; simp)+

lemma socket_read_step_ok:
  assumes "sock_mid payload wrap env t"
  shows "flow_all (sock_mid payload wrap env) (sock_post payload wrap env) (sock_fin payload wrap)
    (socket_read_step wrap env t)"
proof -
  obtain r w where call: "sock_poll_recv env READ_BUFFER_LENGTH (sock_world t) = (r, w)"
    by (meson surj_pair)
  have quiet: "sock_mid payload wrap env (t\<lparr>sock_world := w, sock_trace := sock_trace t @ [SockPollRecv r]\<rparr>)"
    if "sock_quiet (SockPollRecv r :: ('a, 'b) socket_event)"
    using assms that by (simp add: sock_mid_def sock_inv_def)
  have sent: "sock_mid payload wrap env (t\<lparr>sock_world := w', sock_trace := sock_trace t @
      [SockPollRecv (Ready (Inr bs)), SockTunSend (wrap (sock_index t) bs) ok]\<rparr>)" for bs ok w'
    using assms by (simp add: sock_mid_def sock_inv_def)
  show ?thesis
    using call quiet sent
    by (auto simp: socket_read_step_def socket_poll_read_state_def sock_call_def Let_def
      sock_post_def sock_read_armed_def sock_mid_def dest: sock_inv_fin
      split: prod.splits poll.splits sum.splits)
qed

interpretation sock: poll_loops "socket_write_step payload env" "socket_read_step wrap env"
    "sock_inv payload wrap env" "sock_mid payload wrap env" "sock_post payload wrap env"
    "sock_fin payload wrap"
  for payload :: "'i \<Rightarrow> bytes" and wrap :: "u8 \<Rightarrow> bytes \<Rightarrow> 'o" and env :: "('i, 'o, 'w) socket_env"
  by unfold_locales (simp_all add: socket_write_step_ok socket_read_step_ok)

text \<open>
  An environment with finitely many datagrams and messages ready. A short send has to use up fuel
  too: a socket that keeps accepting nothing of a datagram would keep the write loop spinning.
\<close>

definition sock_finite :: "('i, 'o, 'w) socket_env \<Rightarrow> ('w \<Rightarrow> nat) \<Rightarrow> bool" where
  "sock_finite env fuel \<longleftrightarrow>
     (\<forall>w. fst (sock_rx_poll_recv env w) \<noteq> Pending \<longrightarrow> fuel (snd (sock_rx_poll_recv env w)) < fuel w) \<and>
     (\<forall>bs w. fuel (snd (sock_poll_send env bs w)) \<le> fuel w) \<and>
     (\<forall>bs w n. fst (sock_poll_send env bs w) = Ready (Inr n) \<and> n \<noteq> length bs \<longrightarrow>
        fuel (snd (sock_poll_send env bs w)) < fuel w) \<and>
     (\<forall>k w. fst (sock_poll_recv env k w) \<noteq> Pending \<longrightarrow> fuel (snd (sock_poll_recv env k w)) < fuel w) \<and>
     (\<forall>m w. fuel (snd (sock_tun_send env m w)) \<le> fuel w)"

definition sock_wmu :: "('w \<Rightarrow> nat) \<Rightarrow> ('i, 'o, 'w) Socket \<Rightarrow> nat" where
  "sock_wmu fuel this = 2 * fuel (sock_world this) + length (sock_held (sock_write_state this))"

lemma sock_finiteD:
  assumes "sock_finite env fuel"
  shows "sock_rx_poll_recv env w = (Ready x, w') \<Longrightarrow> fuel w' < fuel w"
    and "sock_poll_send env bs w = (r1, w') \<Longrightarrow> fuel w' \<le> fuel w"
    and "sock_poll_send env bs w = (Ready (Inr n), w') \<Longrightarrow> n \<noteq> length bs \<Longrightarrow> fuel w' < fuel w"
    and "sock_poll_recv env k w = (Ready y, w') \<Longrightarrow> fuel w' < fuel w"
    and "sock_tun_send env m w = (ok, w') \<Longrightarrow> fuel w' \<le> fuel w"
  using assms unfolding sock_finite_def by (metis fst_conv snd_conv poll.distinct(1))+

lemma socket_write_step_less:
  assumes "sock_finite env fuel" and "socket_write_step payload env t = Again t'"
  shows "sock_wmu fuel t' < sock_wmu fuel t"
proof (cases "sock_write_state t")
  case SockRecv
  with assms(2) show ?thesis
    by (auto simp: socket_write_step_def socket_poll_write_state_def sock_call_def sock_wmu_def
      Let_def dest!: sock_finiteD(1) [OF assms(1)]
      split: prod.splits poll.splits option.splits if_splits)
next
  case (SockWrite bs)
  obtain r w where call: "sock_poll_send env bs (sock_world t) = (r, w)"
    by (meson surj_pair)
  from SockWrite assms(2) call show ?thesis
    using sock_finiteD(2) [OF assms(1) call]
    by (auto simp: socket_write_step_def socket_poll_write_state_def sock_call_def sock_wmu_def
      Let_def dest: sock_finiteD(3) [OF assms(1)] split: poll.splits sum.splits if_splits)
next
  case SockStop
  with assms(2) show ?thesis
    by (simp add: socket_write_step_def socket_poll_write_state_def)
qed

lemma socket_read_step_less:
  assumes "sock_finite env fuel" and "socket_read_step wrap env t = Again t'"
  shows "fuel (sock_world t') < fuel (sock_world t)"
  using assms(2)
  by (fastforce simp: socket_read_step_def socket_poll_read_state_def sock_call_def Let_def
      dest: sock_finiteD(4,5) [OF assms(1)] split: prod.splits poll.splits sum.splits if_splits)

interpretation sock_total: poll_terminates "socket_write_step payload env" "socket_read_step wrap env"
    "\<lambda>t. sock_inv payload wrap env t \<and> sock_finite env fuel"
    "\<lambda>t. sock_mid payload wrap env t \<and> sock_finite env fuel"
    "sock_post payload wrap env" "sock_fin payload wrap" "\<lambda>_ _. False" "sock_wmu fuel" "\<lambda>t. fuel (sock_world t)"
  for payload :: "'i \<Rightarrow> bytes" and wrap :: "u8 \<Rightarrow> bytes \<Rightarrow> 'o" and env :: "('i, 'o, 'w) socket_env"
    and fuel :: "'w \<Rightarrow> nat"
proof unfold_locales
  fix s :: "('i, 'o, 'w) Socket"
  show "sock_inv payload wrap env s \<and> sock_finite env fuel \<Longrightarrow>
      flow_all (\<lambda>t. sock_inv payload wrap env t \<and> sock_finite env fuel)
        (\<lambda>t. sock_mid payload wrap env t \<and> sock_finite env fuel) (sock_fin payload wrap)
        (socket_write_step payload env s)"
    by (simp add: flow_sat_conj socket_write_step_ok)
  show "sock_mid payload wrap env s \<and> sock_finite env fuel \<Longrightarrow>
      flow_all (\<lambda>t. sock_mid payload wrap env t \<and> sock_finite env fuel)
        (sock_post payload wrap env) (sock_fin payload wrap) (socket_read_step wrap env s)"
    using socket_read_step_ok [of payload wrap env s] by (cases "socket_read_step wrap env s") auto
qed (blast intro: socket_write_step_less socket_read_step_less)+

section \<open>Live sockets\<close>

lemma sock_inv_world [simp]:
  "sock_inv payload wrap env (t\<lparr>sock_world := w\<rparr>) = sock_inv payload wrap env t"
  by (simp add: sock_inv_def)

lemma socket_poll_result:
  assumes "sock_inv payload wrap env t" and "socket_poll payload wrap env t = Some (r, t')"
  shows "r = Ret Pending \<and> sock_post payload wrap env t' \<or> r = Ret (Ready ()) \<and> sock_fin payload wrap t'"
  using assms unfolding socket_poll_def by (rule sock.poll_ok)

lemma socket_live_inv:
  "socket_live payload wrap env t \<Longrightarrow> sends_within env \<Longrightarrow> sock_inv payload wrap env t"
proof (induction rule: socket_live.induct)
  case (start index w)
  then show ?case by (simp add: sock_inv_def new_socket_def sock_trace_defs)
next
  case (again t t' w)
  then show ?case
    using socket_poll_result by (fastforce simp: sock_post_def sock_mid_def)
qed

section \<open>A scripted environment\<close>

text \<open>
  For the witnesses: the payloads waiting in the socket's channel and the datagrams the game has
  sent; datagrams are sent whole.
\<close>

definition scripted_socket :: "(bytes, u8 \<times> bytes, bytes list \<times> bytes list) socket_env" where
  "scripted_socket =
     \<lparr>sock_rx_poll_recv = (\<lambda>(out, inc). case out of [] \<Rightarrow> (Pending, (out, inc)) | m # ms \<Rightarrow> (Ready (Some m), (ms, inc))),
      sock_poll_send = (\<lambda>bs w. (Ready (Inr (length bs)), w)),
      sock_poll_recv = (\<lambda>k (out, inc). case inc of [] \<Rightarrow> (Pending, (out, inc)) | m # ms \<Rightarrow> (Ready (Inr (take k m)), (out, ms))),
      sock_tun_send = (\<lambda>m w. (True, w))\<rparr>"

lemma scripted_socket_within: "sends_within scripted_socket"
  by (simp add: sends_within_def scripted_socket_def)

lemma scripted_socket_finite: "sock_finite scripted_socket (\<lambda>(out, inc). length out + length inc)"
  by (auto simp: sock_finite_def scripted_socket_def split: list.splits)

lemma scripted_socket_live: "socket_live (\<lambda>bs. bs) Pair scripted_socket (new_socket 2 w)"
  by (rule socket_live.start)

lemma scripted_socket_poll:
  "socket_poll (\<lambda>bs. bs) Pair scripted_socket (new_socket 2 ([[7, 8]], [[9]])) =
     Some (Ret Pending,
       \<lparr>sock_index = 2, sock_write_state = SockRecv, sock_world = ([], []),
        sock_trace = [SockRxPollRecv (Ready (Some [7, 8])), SockPollSend [7, 8] (Ready (Inr 2)),
          SockRxPollRecv Pending, SockPollRecv (Ready (Inr [9])), SockTunSend (2, [9]) True,
          SockPollRecv Pending]\<rparr>)"
  by (simp add: socket_poll_def poll_future_def while_let_unfold socket_write_step_def
      socket_poll_write_state_def socket_read_step_def socket_poll_read_state_def sock_call_def
      new_socket_def scripted_socket_def READ_BUFFER_LENGTH_def Let_def)

section \<open>Properties\<close>

text \<open>C28: No poll of a live socket panics: it is never polled in the stopped state, and the slice of
  the bytes left after a short send is in bounds, as long as a send reports no more bytes than it
  was given.\<close>
theorem socket_never_panics:
  assumes "sends_within env" and "socket_live payload wrap env t"
  shows "socket_poll payload wrap env t \<noteq> Some (Panic msg, t')"
  using socket_poll_result socket_live_inv assms by fastforce

theorem socket_never_panics_witness:
  "\<not> (\<exists>msg t'. socket_poll (\<lambda>bs. bs) Pair scripted_socket (new_socket 2 ([[7, 8]], [[9]])) =
    Some (Panic msg, t'))"
  using socket_never_panics [OF scripted_socket_within scripted_socket_live] by blast

text \<open>C26: Over the whole life of a socket, the bytes it has sent to the game are the payloads it took
  from the tunnel, in that order, but for a suffix of the payload it took last; and where no send was
  short, every payload left as one datagram of its own, but for the last, which may still be held
  whole. It relies on a send never reporting more bytes than it was given.\<close>
theorem socket_outbound_order:
  assumes "sends_within env" and "socket_live payload wrap env t"
    and "socket_poll payload wrap env t = Some (r, t')"
  shows "\<exists>held. concat (map payload (over_trace sock_taken (sock_trace t'))) =
      concat (over_trace sock_sent (sock_trace t')) @ held \<and>
    (held = [] \<or> over_trace sock_taken (sock_trace t') \<noteq> [] \<and>
      suffix held (payload (last (over_trace sock_taken (sock_trace t'))))) \<and>
    (list_ex short_send (sock_trace t') \<or>
      map payload (over_trace sock_taken (sock_trace t')) = over_trace sock_sent (sock_trace t') \<or>
      map payload (over_trace sock_taken (sock_trace t')) = over_trace sock_sent (sock_trace t') @ [held])"
proof -
  have "sock_inv payload wrap env t" using assms(1,2) by (simp add: socket_live_inv)
  from socket_poll_result [OF this assms(3)] have "sock_fin payload wrap t'"
    by (auto simp: sock_post_def sock_mid_def sock_inv_fin)
  then obtain lost where lost: "length lost \<le> 1" "sock_out_bytes payload lost (sock_trace t')"
    "sock_out_datagrams payload lost (sock_trace t')"
    unfolding sock_fin_def by blast
  from lost(1) have "lost = [] \<or> (\<exists>held. lost = [held])"
    by (cases lost) auto
  with lost(2,3) show ?thesis
    by (auto simp: sock_out_bytes_def sock_out_datagrams_def)
qed

theorem socket_outbound_order_witness:
  "\<exists>r t'. socket_poll (\<lambda>bs. bs) Pair scripted_socket (new_socket 2 ([[7, 8]], [[9]])) = Some (r, t') \<and>
    (\<exists>held. concat (map (\<lambda>bs. bs) (over_trace sock_taken (sock_trace t'))) =
      concat (over_trace sock_sent (sock_trace t')) @ held \<and>
    (held = [] \<or> over_trace sock_taken (sock_trace t') \<noteq> [] \<and>
      suffix held ((\<lambda>bs. bs) (last (over_trace sock_taken (sock_trace t'))))) \<and>
    (list_ex short_send (sock_trace t') \<or>
      map (\<lambda>bs. bs) (over_trace sock_taken (sock_trace t')) = over_trace sock_sent (sock_trace t') \<or>
      map (\<lambda>bs. bs) (over_trace sock_taken (sock_trace t')) = over_trace sock_sent (sock_trace t') @ [held]))"
  using socket_outbound_order [OF scripted_socket_within scripted_socket_live scripted_socket_poll]
    scripted_socket_poll by blast

text \<open>C27: Over the whole life of a socket, what it forwards to the tunnel is each datagram it received
  from the game, once, in that order, under the socket's own index.\<close>
theorem socket_inbound_forwarded:
  assumes "sends_within env" and "socket_live payload wrap env t"
    and "socket_poll payload wrap env t = Some (r, t')"
  shows "over_trace sock_forwarded (sock_trace t') =
    map (wrap (sock_index t')) (over_trace sock_received (sock_trace t'))"
proof -
  have "sock_inv payload wrap env t" using assms(1,2) by (simp add: socket_live_inv)
  from socket_poll_result [OF this assms(3)] have "sock_fin payload wrap t'"
    by (auto simp: sock_post_def sock_mid_def sock_inv_fin)
  then show ?thesis by (simp add: sock_fin_def sock_in_wrapped_def)
qed

theorem socket_inbound_forwarded_witness:
  "\<exists>r t'. socket_poll (\<lambda>bs. bs) Pair scripted_socket (new_socket 2 ([[7, 8]], [[9]])) = Some (r, t') \<and>
    over_trace sock_forwarded (sock_trace t') =
      map (Pair (sock_index t')) (over_trace sock_received (sock_trace t'))"
  using socket_inbound_forwarded [OF scripted_socket_within scripted_socket_live scripted_socket_poll]
    scripted_socket_poll by blast

text \<open>C34: When a live socket answers pending, everything it waits for will wake it: the game's
  datagrams, and the tunnel's messages or the writability of the socket.\<close>
theorem socket_pending_wakes:
  assumes "sends_within env" and "socket_live payload wrap env t"
    and "socket_poll payload wrap env t = Some (Ret Pending, t')"
  shows "sock_read_armed (sock_trace t') \<and> sock_write_armed (sock_write_state t') (sock_trace t')"
proof -
  have "sock_inv payload wrap env t" using assms(1,2) by (simp add: socket_live_inv)
  from socket_poll_result [OF this assms(3)] show ?thesis
    by (auto simp: sock_post_def sock_mid_def)
qed

theorem socket_pending_wakes_witness:
  "\<exists>t'. socket_poll (\<lambda>bs. bs) Pair scripted_socket (new_socket 2 ([[7, 8]], [[9]])) = Some (Ret Pending, t') \<and>
    sock_read_armed (sock_trace t') \<and> sock_write_armed (sock_write_state t') (sock_trace t')"
  using socket_pending_wakes [OF scripted_socket_within scripted_socket_live scripted_socket_poll]
    scripted_socket_poll by blast

text \<open>C31: A poll of a live socket returns, when the environment has only finitely many datagrams and
  messages ready and short sends make progress.\<close>
theorem socket_poll_returns:
  assumes "sends_within env" and "socket_live payload wrap env t" and "sock_finite env fuel"
  shows "\<exists>r t'. socket_poll payload wrap env t = Some (r, t')"
  unfolding socket_poll_def
  by (rule sock_total.poll_returns) (use assms socket_live_inv in blast)

theorem socket_poll_returns_witness:
  "\<exists>r t'. socket_poll (\<lambda>bs. bs) Pair scripted_socket (new_socket 2 ([[7, 8]], [[9]])) = Some (r, t')"
  by (rule socket_poll_returns [OF scripted_socket_within scripted_socket_live scripted_socket_finite])

end
