(* ===== verification/Tunnel_Codec.thy ===== *)
theory Tunnel_Codec
  imports Codec
begin

text \<open>
  The module \<^verbatim>\<open>codec\<close> of \<^verbatim>\<open>src/src/servers/tunnel.rs\<close>: tunnel messages (an index byte, a
  16-bit length, the payload) and their codec.
\<close>

record TunnelMessageHeader =
  tmh_index :: u8
  tmh_length :: u16

record TunnelMessage =
  tm_index :: u8
  tm_message :: bytes

record TunnelCodec =
  partial :: "TunnelMessageHeader option"

definition TunnelCodec_default :: TunnelCodec where
  "TunnelCodec_default = \<lparr>partial = None\<rparr>"

text \<open>The part of \<^verbatim>\<open>decode\<close> below the header.\<close>

definition tunnel_take_message ::
  "TunnelCodec \<Rightarrow> bytes \<Rightarrow> ((io_error + TunnelMessage option) \<times> TunnelCodec \<times> bytes) outcome" where
  "tunnel_take_message self src =
     (case partial self of
        None \<Rightarrow> Panic ''Partial frame missing''
      | Some p \<Rightarrow>
          if length src < unat (tmh_length p) then Ret (Inr None, self, src)
          else
            and_then (split_to (unat (tmh_length p)) src) (\<lambda>(bs, src).
            Ret (Inr (Some \<lparr>tm_index = tmh_index p, tm_message = bs\<rparr>),
                 self\<lparr>partial := None\<rparr>, src)))"

definition tunnel_decode :: "(TunnelCodec, TunnelMessage) decoder" where
  "tunnel_decode self src =
     (case partial self of
        Some value \<Rightarrow> tunnel_take_message self src
      | None \<Rightarrow>
          if length src < 5 then Ret (Inr None, self, src)
          else
            and_then (get_u8 src) (\<lambda>(index, src).
            and_then (get_u16 src) (\<lambda>(len, src).
            tunnel_take_message
              (self\<lparr>partial := Some \<lparr>tmh_index = index, tmh_length = len\<rparr>\<rparr>) src)))"

definition tunnel_encode :: "TunnelMessage \<Rightarrow> bytes \<Rightarrow> (io_error + unit) \<times> bytes" where
  "tunnel_encode item dst =
     (let dst = put_u8 (tm_index item) dst;
          dst = put_u16 (word_of_nat (length (tm_message item))) dst;
          dst = extend_from_slice (tm_message item) dst
      in (Inr (), dst))"

section \<open>The wire format\<close>

definition tunnel_wire :: "TunnelMessage \<Rightarrow> bytes" where
  "tunnel_wire m =
     tm_index m # u16_to_be_bytes (word_of_nat (length (tm_message m))) @ tm_message m"

definition tunnel_wf :: "TunnelMessage \<Rightarrow> bool" where
  "tunnel_wf m \<longleftrightarrow> length (tm_message m) < 65536"

text \<open>The header of the next message, once the decoder has looked at it, and the bytes after it.\<close>

definition tunnel_next :: "TunnelCodec \<Rightarrow> bytes \<Rightarrow> (TunnelMessageHeader \<times> bytes) option" where
  "tunnel_next c src =
     (case partial c of
        Some p \<Rightarrow> Some (p, src)
      | None \<Rightarrow>
          if length src < 5 then None
          else Some (\<lparr>tmh_index = src ! 0, tmh_length = u16_from_be_bytes (src ! 1) (src ! 2)\<rparr>,
                     drop 3 src))"

definition tunnel_mu :: "TunnelCodec \<Rightarrow> bytes \<Rightarrow> nat" where
  "tunnel_mu c src = length src + (if partial c = None then 0 else 1)"

lemma length_tunnel_wire [simp]: "length (tunnel_wire m) = 3 + length (tm_message m)"
  by (simp add: tunnel_wire_def)

text \<open>\<^verbatim>\<open>decode\<close> without its panics: none of its reads, splits and expectations can fail.\<close>

lemma tunnel_decode_eq:
  "tunnel_decode c src =
     Ret (case tunnel_next c src of
            None \<Rightarrow> (Inr None, c, src)
          | Some (p, rest) \<Rightarrow>
              if length rest < unat (tmh_length p) then (Inr None, c\<lparr>partial := Some p\<rparr>, rest)
              else (Inr (Some \<lparr>tm_index = tmh_index p, tm_message = take (unat (tmh_length p)) rest\<rparr>),
                    c\<lparr>partial := None\<rparr>, drop (unat (tmh_length p)) rest))"
proof (cases "partial c")
  case None
  show ?thesis
  proof (cases "length src < 5")
    case False
    then obtain a b d rest where "src = a # b # d # rest"
      by (auto simp: Suc_le_length_iff numeral_eq_Suc not_less)
    with None False show ?thesis
      by (cases c) (simp add: tunnel_decode_def tunnel_take_message_def tunnel_next_def split_to_def)
  qed (simp add: None tunnel_decode_def tunnel_next_def)
next
  case (Some p)
  then show ?thesis
    by (cases c) (simp add: tunnel_decode_def tunnel_take_message_def tunnel_next_def split_to_def)
qed

lemma tunnel_next_append:
  "tunnel_next c src = Some (p, rest) \<Longrightarrow> tunnel_next c (src @ xs) = Some (p, rest @ xs)"
  by (auto simp: tunnel_next_def nth_append split: option.splits if_splits)

lemma tunnel_next_mu: "tunnel_next c src = Some (p, rest) \<Longrightarrow> length rest < tunnel_mu c src"
  by (auto simp: tunnel_next_def tunnel_mu_def split: option.splits if_splits)

lemma tunnel_next_held [simp]: "tunnel_next (c\<lparr>partial := Some p\<rparr>) src = Some (p, src)"
  by (simp add: tunnel_next_def)

lemma tunnel_encode_eq: "tunnel_encode item dst = (Inr (), dst @ tunnel_wire item)"
  by (simp add: tunnel_encode_def tunnel_wire_def codec_simps)

lemma tunnel_next_wire:
  "tunnel_wf m \<Longrightarrow> 5 \<le> length (tunnel_wire m @ xs) \<Longrightarrow>
   tunnel_next TunnelCodec_default (tunnel_wire m @ xs) =
     Some (\<lparr>tmh_index = tm_index m, tmh_length = word_of_nat (length (tm_message m))\<rparr>,
           tm_message m @ xs)"
  by (simp add: tunnel_next_def TunnelCodec_default_def tunnel_wire_def u16_to_be_bytes_def
      u16_be_round_trip del: unat_word_of_nat_u16)

section \<open>The codec contract\<close>

interpretation tun_codec: frame_codec tunnel_decode tunnel_mu TunnelCodec_default tunnel_encode
  tunnel_wire tunnel_wf 5
proof unfold_locales
  fix c src
  show "\<exists>r c' src'. tunnel_decode c src = Ret (Inr r, c', src')"
    by (auto simp: tunnel_decode_eq split: option.splits)
next
  fix c src m c' src' xs
  assume "tunnel_decode c src = Ret (Inr (Some m), c', src')"
  then show "tunnel_decode c (src @ xs) = Ret (Inr (Some m), c', src' @ xs)"
    by (auto simp: tunnel_decode_eq tunnel_next_append split: option.splits if_splits)
next
  fix c src c' src' xs
  assume "tunnel_decode c src = Ret (Inr None, c', src')"
  then show "tunnel_decode c (src @ xs) = tunnel_decode c' (src' @ xs)"
    by (auto simp: tunnel_decode_eq tunnel_next_append split: option.splits if_splits)
next
  fix c src m c' src'
  assume "tunnel_decode c src = Ret (Inr (Some m), c', src')"
  then show "tunnel_mu c' src' < tunnel_mu c src"
    by (auto simp: tunnel_decode_eq tunnel_mu_def [of "c\<lparr>partial := None\<rparr>"]
        dest!: tunnel_next_mu split: option.splits if_splits)
next
  fix m dst
  show "tunnel_encode m dst = (Inr (), dst @ tunnel_wire m)"
    by (rule tunnel_encode_eq)
next
  fix m xs
  assume wf: "tunnel_wf m" and "5 \<le> length (tunnel_wire m @ xs)"
  then show "tunnel_decode TunnelCodec_default (tunnel_wire m @ xs) =
      Ret (Inr (Some m), TunnelCodec_default, xs)"
    using wf by (simp add: tunnel_decode_eq tunnel_next_wire)
      (simp add: tunnel_wf_def TunnelCodec_default_def)
next
  fix src :: bytes
  assume "length src < 5"
  then show "tunnel_decode TunnelCodec_default src = Ret (Inr None, TunnelCodec_default, src)"
    by (simp add: tunnel_decode_eq tunnel_next_def TunnelCodec_default_def)
qed simp

section \<open>Properties\<close>

lemma tunnel_stream:
  assumes "list_all tunnel_wf ms"
    and "concat chunks = fold (\<lambda>m dst. snd (tunnel_encode m dst)) ms []"
  shows "\<exists>ms1 ms2. ms = ms1 @ ms2 \<and>
    feed tunnel_decode TunnelCodec_default [] chunks =
      Some (ms1, TunnelCodec_default, concat (map tunnel_wire ms2)) \<and>
    (ms2 = [] \<or> (\<exists>m. ms2 = [m] \<and> length (tm_message m) < 2))"
proof -
  have "fold (\<lambda>m dst. snd (tunnel_encode m dst)) ms dst = dst @ concat (map tunnel_wire ms)" for dst
    by (induction ms arbitrary: dst) (simp_all add: tunnel_encode_eq)
  with assms obtain ms1 ms2 where ms: "ms = ms1 @ ms2"
    and short: "length (concat (map tunnel_wire ms2)) < 5"
    and feed: "feed tunnel_decode TunnelCodec_default [] chunks =
      Some (ms1, TunnelCodec_default, concat (map tunnel_wire ms2))"
    using tun_codec.feed_wires [of ms chunks] by auto
  have "ms2 = [] \<or> (\<exists>m. ms2 = [m] \<and> length (tm_message m) < 2)"
  proof (cases ms2)
    case (Cons m ms')
    with short show ?thesis by (cases ms') simp_all
  qed simp
  with ms feed show ?thesis by blast
qed

text \<open>C5: Messages that are encoded one after the other and arrive cut into chunks in any way are
  decoded to the same messages in the same order. Only the last one can be outstanding, and only
  when its payload has fewer than two bytes: then it stays in the buffer, complete.\<close>
theorem tunnel_stream_round_trip:
  assumes "list_all tunnel_wf ms"
    and "concat chunks = fold (\<lambda>m dst. snd (tunnel_encode m dst)) ms []"
  shows "\<exists>ms1 ms2. ms = ms1 @ ms2 \<and>
    feed tunnel_decode TunnelCodec_default [] chunks =
      Some (ms1, TunnelCodec_default, concat (map tunnel_wire ms2)) \<and>
    (ms2 = [] \<or> (\<exists>m. ms2 = [m] \<and> length (tm_message m) < 2))"
  using assms by (rule tunnel_stream)

theorem tunnel_stream_round_trip_witness:
  "\<exists>ms1 ms2. [\<lparr>tm_index = 1, tm_message = [7, 8]\<rparr>, \<lparr>tm_index = 2, tm_message = []\<rparr>] = ms1 @ ms2 \<and>
    feed tunnel_decode TunnelCodec_default [] [[1, 0], [2, 7, 8, 2], [0, 0]] =
      Some (ms1, TunnelCodec_default, concat (map tunnel_wire ms2)) \<and>
    (ms2 = [] \<or> (\<exists>m. ms2 = [m] \<and> length (tm_message m) < 2))"
  by (rule tunnel_stream_round_trip)
    (simp_all add: tunnel_wf_def tunnel_encode_def codec_simps u16_to_be_bytes_def)

text \<open>C38: A keep-alive frame, with its empty payload as documented, is complete at three bytes but is
  not decoded when it arrives, nor when one more byte has arrived: the decoder waits for two bytes
  of a later message, and with these it gives the keep-alive out.\<close>
theorem tunnel_keep_alive_delayed:
  "feed tunnel_decode TunnelCodec_default [] [snd (tunnel_encode \<lparr>tm_index = 255, tm_message = []\<rparr> [])] =
     Some ([], TunnelCodec_default, [255, 0, 0]) \<and>
   feed tunnel_decode TunnelCodec_default []
       [snd (tunnel_encode \<lparr>tm_index = 255, tm_message = []\<rparr> []), [a]] =
     Some ([], TunnelCodec_default, [255, 0, 0, a]) \<and>
   tunnel_decode TunnelCodec_default ([255, 0, 0] @ [a, b] @ rest) =
     Ret (Inr (Some \<lparr>tm_index = 255, tm_message = []\<rparr>), TunnelCodec_default, [a, b] @ rest)"
proof -
  let ?m = "\<lparr>tm_index = 255, tm_message = []\<rparr> :: TunnelMessage"
  have wire: "tunnel_wire ?m = [255, 0, 0]"
    by (simp add: tunnel_wire_def u16_to_be_bytes_def)
  have "tunnel_decode TunnelCodec_default (tunnel_wire ?m @ [a, b] @ rest) =
      Ret (Inr (Some ?m), TunnelCodec_default, [a, b] @ rest)"
    by (rule tun_codec.decode_wire) (simp_all add: tunnel_wf_def)
  moreover have "drain tunnel_decode TunnelCodec_default [255, 0, 0] = Some ([], TunnelCodec_default, [255, 0, 0])"
    by (rule tun_codec.drain_short) simp
  moreover have "drain tunnel_decode TunnelCodec_default [255, 0, 0, a] = Some ([], TunnelCodec_default, [255, 0, 0, a])"
    by (rule tun_codec.drain_short) simp
  ultimately show ?thesis by (simp add: wire tunnel_encode_eq)
qed

text \<open>C40: The tunnel decoder never panics, never fails and never loops, whatever bytes arrive in
  whatever chunks and whatever message it is in the middle of; and cutting the bytes differently
  gives the same messages, the same codec state and the same unread bytes.\<close>
theorem tunnel_decoder_robust:
  "\<exists>ms c' rest.
     drain tunnel_decode c src = Some (ms, c', rest) \<and>
     feed tunnel_decode TunnelCodec_default [] chunks = drain tunnel_decode TunnelCodec_default (concat chunks)"
proof -
  have "drain tunnel_decode TunnelCodec_default [] = Some ([], TunnelCodec_default, [])"
    by (rule tun_codec.drain_short) simp
  with tun_codec.drain_total [of c src] tun_codec.feed_concat [of TunnelCodec_default "[]" chunks]
  show ?thesis by auto
qed

text \<open>The encoder has no check on the payload length: 65536 bytes, the most a socket of the pool
  can read into its buffer, are announced as none, so the peer sees an empty message and takes the
  payload for the messages that follow.\<close>
theorem tunnel_length_wraps:
  assumes "length (tm_message m) = 65536"
  shows "tunnel_decode TunnelCodec_default (snd (tunnel_encode m [])) =
    Ret (Inr (Some \<lparr>tm_index = tm_index m, tm_message = []\<rparr>), TunnelCodec_default, tm_message m)"
proof -
  have zero: "(word_of_nat 65536 :: u16) = 0"
    by (simp add: word_unat_eq_iff unat_word_of_nat_u16_mod)
  have "tunnel_next TunnelCodec_default (tunnel_wire m) =
      Some (\<lparr>tmh_index = tm_index m, tmh_length = 0\<rparr>, tm_message m)"
    using assms by (simp add: tunnel_next_def TunnelCodec_default_def tunnel_wire_def
        u16_to_be_bytes_def zero u16_from_be_bytes_def)
  then show ?thesis
    by (simp add: tunnel_encode_eq tunnel_decode_eq TunnelCodec_default_def)
qed

theorem tunnel_length_wraps_witness:
  "tunnel_decode TunnelCodec_default
     (snd (tunnel_encode \<lparr>tm_index = 1, tm_message = replicate 65536 7\<rparr> [])) =
    Ret (Inr (Some \<lparr>tm_index = 1, tm_message = []\<rparr>), TunnelCodec_default, replicate 65536 7)"
  using tunnel_length_wraps [of "\<lparr>tm_index = 1, tm_message = replicate 65536 7\<rparr>"]
  by (simp only: TunnelMessage.simps length_replicate simp_thms)

end
