(* ===== verification/Tunnel.thy ===== *)
theory Tunnel
  imports Poll_Loop Tunnel_Codec
begin

text \<open>
  The \<^verbatim>\<open>Tunnel\<close> future of \<^verbatim>\<open>src/src/servers/tunnel.rs\<close>. The operations of tokio it calls (the
  channel from the sockets, the framed stream to the server, the channels to the sockets) are
  the fields of \<open>tunnel_env\<close>: functions on an arbitrary world \<open>'w\<close>, which each call may change.
  Every call and its answer is appended to \<open>trace\<close>, on which the properties are stated.
\<close>

section \<open>State\<close>

definition SOCKET_POOL_SIZE :: nat where
  "SOCKET_POOL_SIZE = 4"

text \<open>A handle names the channel of the socket it sends to.\<close>

datatype SocketHandle = SocketHandle nat

datatype TunnelWriteState = Recv | Write "TunnelMessage option" | Flush | Stop

datatype TunnelReadState = ReadContinue | ReadStop

record 'w tunnel_env =
  rx_poll_recv :: "'w \<Rightarrow> TunnelMessage option poll \<times> 'w"
  io_poll_ready :: "'w \<Rightarrow> (io_error + unit) poll \<times> 'w"
  io_start_send :: "TunnelMessage \<Rightarrow> 'w \<Rightarrow> (io_error + unit) \<times> 'w"
  io_poll_flush :: "'w \<Rightarrow> (io_error + unit) poll \<times> 'w"
  io_poll_next :: "'w \<Rightarrow> (io_error + TunnelMessage) option poll \<times> 'w"
  handle_send :: "SocketHandle \<Rightarrow> TunnelMessage \<Rightarrow> 'w \<Rightarrow> bool \<times> 'w"

datatype tunnel_event =
    RxPollRecv "TunnelMessage option poll"
  | IoPollReady "(io_error + unit) poll"
  | IoStartSend TunnelMessage "io_error + unit"
  | IoPollFlush "(io_error + unit) poll"
  | IoPollNext "(io_error + TunnelMessage) option poll"
  | HandleSend SocketHandle TunnelMessage bool

record 'w Tunnel =
  pool :: "SocketHandle list"
  write_state :: TunnelWriteState
  world :: 'w
  trace :: "tunnel_event list"

definition tunnel_call ::
  "('w \<Rightarrow> 'r \<times> 'w) \<Rightarrow> ('r \<Rightarrow> tunnel_event) \<Rightarrow> 'w Tunnel \<Rightarrow> 'r \<times> 'w Tunnel" where
  "tunnel_call f event this =
     (let (r, w) = f (world this)
      in (r, this\<lparr>world := w, trace := trace this @ [event r]\<rparr>))"

section \<open>The write half\<close>

definition tunnel_poll_write_state ::
  "'w tunnel_env \<Rightarrow> 'w Tunnel \<Rightarrow> TunnelWriteState poll outcome \<times> 'w Tunnel" where
  "tunnel_poll_write_state env this =
     (case write_state this of
        Recv \<Rightarrow>
          (case tunnel_call (rx_poll_recv env) RxPollRecv this of
             (Pending, this) \<Rightarrow> (Ret Pending, this)
           | (Ready (Some message), this) \<Rightarrow> (Ret (Ready (Write (Some message))), this)
           | (Ready None, this) \<Rightarrow> (Ret (Ready Stop), this))
      | Write message \<Rightarrow>
          (case tunnel_call (io_poll_ready env) IoPollReady this of
             (Pending, this) \<Rightarrow> (Ret Pending, this)
           | (Ready (Inr _), this) \<Rightarrow>
               (case message of
                  None \<Rightarrow> (Panic ''Unexpected write state without message'', this)
                | Some m \<Rightarrow>
                    (case tunnel_call (io_start_send env m) (IoStartSend m)
                            (this\<lparr>write_state := Write None\<rparr>) of
                       (Inl e, this) \<Rightarrow> (Panic ''Message encoder errored'', this)
                     | (Inr _, this) \<Rightarrow> (Ret (Ready Flush), this)))
           | (Ready (Inl e), this) \<Rightarrow> (Ret (Ready Stop), this))
      | Flush \<Rightarrow>
          (case tunnel_call (io_poll_flush env) IoPollFlush this of
             (Pending, this) \<Rightarrow> (Ret Pending, this)
           | (Ready (Inr _), this) \<Rightarrow> (Ret (Ready Recv), this)
           | (Ready (Inl e), this) \<Rightarrow> (Ret (Ready Stop), this))
      | Stop \<Rightarrow> (Panic ''Tunnel polled after already stopped'', this))"

section \<open>The read half\<close>

definition pong :: TunnelMessage where
  "pong = \<lparr>tm_index = 255, tm_message = []\<rparr>"

text \<open>The answer to a keep-alive message, attempted only when nothing is being written.\<close>

definition tunnel_reply_ping ::
  "'w tunnel_env \<Rightarrow> 'w Tunnel \<Rightarrow> TunnelReadState poll outcome \<times> 'w Tunnel" where
  "tunnel_reply_ping env this =
     (if write_state this = Recv then
        (case tunnel_poll_write_state env (this\<lparr>write_state := Write (Some pong)\<rparr>) of
           (Panic msg, this) \<Rightarrow> (Panic msg, this)
         | (Ret (Ready next_state), this) \<Rightarrow>
             (Ret (Ready (if next_state = Stop then ReadStop else ReadContinue)),
              this\<lparr>write_state := next_state\<rparr>)
         | (Ret Pending, this) \<Rightarrow> (Ret (Ready ReadContinue), this))
      else (Ret (Ready ReadContinue), this))"

definition tunnel_poll_read_state ::
  "'w tunnel_env \<Rightarrow> 'w Tunnel \<Rightarrow> TunnelReadState poll outcome \<times> 'w Tunnel" where
  "tunnel_poll_read_state env this =
     (case tunnel_call (io_poll_next env) IoPollNext this of
        (Pending, this) \<Rightarrow> (Ret Pending, this)
      | (Ready (Some (Inr message)), this) \<Rightarrow>
          if tm_index message = 255 then tunnel_reply_ping env this
          else if unat (tm_index message) < length (pool this) then
            let handle = pool this ! unat (tm_index message);
                (_, this) = tunnel_call (handle_send env handle message) (HandleSend handle message) this
            in (Ret (Ready ReadContinue), this)
          else (Ret (Ready ReadContinue), this)
      | (Ready _, this) \<Rightarrow> (Ret (Ready ReadStop), this))"

section \<open>The future\<close>

definition tunnel_write_step :: "'w tunnel_env \<Rightarrow> 'w Tunnel \<Rightarrow> 'w Tunnel flow" where
  "tunnel_write_step env this =
     (case tunnel_poll_write_state env this of
        (Panic msg, this) \<Rightarrow> Abort msg this
      | (Ret (Ready next_state), this) \<Rightarrow>
          (let this = this\<lparr>write_state := next_state\<rparr>
           in if next_state = Stop then Return this else Again this)
      | (Ret Pending, this) \<Rightarrow> Break this)"

definition tunnel_read_step :: "'w tunnel_env \<Rightarrow> 'w Tunnel \<Rightarrow> 'w Tunnel flow" where
  "tunnel_read_step env this =
     (case tunnel_poll_read_state env this of
        (Panic msg, this) \<Rightarrow> Abort msg this
      | (Ret (Ready next_state), this) \<Rightarrow>
          (if next_state = ReadStop then Return this else Again this)
      | (Ret Pending, this) \<Rightarrow> Break this)"

definition tunnel_poll ::
  "'w tunnel_env \<Rightarrow> 'w Tunnel \<Rightarrow> (unit poll outcome \<times> 'w Tunnel) option" where
  "tunnel_poll env = poll_future (tunnel_write_step env) (tunnel_read_step env)"

text \<open>The tunnel \<^verbatim>\<open>create_tunnel\<close> starts.\<close>

definition new_tunnel :: "SocketHandle list \<Rightarrow> 'w \<Rightarrow> 'w Tunnel" where
  "new_tunnel handles w = \<lparr>pool = handles, write_state = Recv, world = w, trace = []\<rparr>"

text \<open>
  The life of a tunnel task: it is polled, answers pending, and is polled again later, when the
  world has moved on by itself.
\<close>

inductive tunnel_live :: "'w tunnel_env \<Rightarrow> 'w Tunnel \<Rightarrow> bool" for env where
  start: "length handles = SOCKET_POOL_SIZE \<Longrightarrow> tunnel_live env (new_tunnel handles w)"
| again: "tunnel_live env t \<Longrightarrow> tunnel_poll env t = Some (Ret Pending, t') \<Longrightarrow>
    tunnel_live env (t'\<lparr>world := w\<rparr>)"

section \<open>What the trace says\<close>

text \<open>Messages taken from the sockets, messages handed to the server stream, messages received
  from it, and messages delivered to the sockets.\<close>

fun taken_event :: "tunnel_event \<Rightarrow> TunnelMessage list" where
  "taken_event (RxPollRecv (Ready (Some m))) = [m]"
| "taken_event _ = []"

fun sent_event :: "tunnel_event \<Rightarrow> TunnelMessage list" where
  "sent_event (IoStartSend m r) = [m]"
| "sent_event _ = []"

fun received_event :: "tunnel_event \<Rightarrow> TunnelMessage list" where
  "received_event (IoPollNext (Ready (Some (Inr m)))) = [m]"
| "received_event _ = []"

fun delivered_event :: "tunnel_event \<Rightarrow> (SocketHandle \<times> TunnelMessage) list" where
  "delivered_event (HandleSend h m ok) = [(h, m)]"
| "delivered_event _ = []"

abbreviation is_data :: "TunnelMessage \<Rightarrow> bool" where
  "is_data m \<equiv> tm_index m \<noteq> 255"

abbreviation data_of :: "TunnelMessage list \<Rightarrow> TunnelMessage list" where
  "data_of \<equiv> filter is_data"

fun in_flight :: "TunnelWriteState \<Rightarrow> TunnelMessage list" where
  "in_flight (Write (Some m)) = [m]"
| "in_flight _ = []"

text \<open>The socket a received message is for: its index in the pool, keep-alives and others have none.\<close>

definition route :: "SocketHandle list \<Rightarrow> TunnelMessage \<Rightarrow> (SocketHandle \<times> TunnelMessage) list" where
  "route handles m =
     (if is_data m \<and> unat (tm_index m) < length handles
      then [(handles ! unat (tm_index m), m)] else [])"

text \<open>The sources of wake-ups, by the call that arms them.\<close>

fun is_RxPollRecv :: "tunnel_event \<Rightarrow> bool" where
  "is_RxPollRecv (RxPollRecv r) = True"
| "is_RxPollRecv _ = False"

fun is_IoPollReady :: "tunnel_event \<Rightarrow> bool" where
  "is_IoPollReady (IoPollReady r) = True"
| "is_IoPollReady _ = False"

fun is_IoPollFlush :: "tunnel_event \<Rightarrow> bool" where
  "is_IoPollFlush (IoPollFlush r) = True"
| "is_IoPollFlush _ = False"

fun is_IoPollNext :: "tunnel_event \<Rightarrow> bool" where
  "is_IoPollNext (IoPollNext r) = True"
| "is_IoPollNext _ = False"

text \<open>Is the source that the write half waits for armed?\<close>

fun write_armed :: "TunnelWriteState \<Rightarrow> tunnel_event list \<Rightarrow> bool" where
  "write_armed Recv tr \<longleftrightarrow> last_of is_RxPollRecv tr = Some (RxPollRecv Pending)"
| "write_armed (Write m) tr \<longleftrightarrow> last_of is_IoPollReady tr = Some (IoPollReady Pending)"
| "write_armed Flush tr \<longleftrightarrow> last_of is_IoPollFlush tr = Some (IoPollFlush Pending)"
| "write_armed Stop tr \<longleftrightarrow> False"

definition read_armed :: "tunnel_event list \<Rightarrow> bool" where
  "read_armed tr \<longleftrightarrow> last_of is_IoPollNext tr = Some (IoPollNext Pending)"

section \<open>Invariants\<close>

text \<open>
  What the tunnel relies on: \<^verbatim>\<open>Framed::start_send\<close> answers what the encoder answered.
\<close>

definition framed_sends :: "'w tunnel_env \<Rightarrow> bool" where
  "framed_sends env \<longleftrightarrow> (\<forall>m w. \<exists>dst. fst (io_start_send env m w) = fst (tunnel_encode m dst))"

definition tunnel_out_fifo :: "TunnelMessage list \<Rightarrow> tunnel_event list \<Rightarrow> bool" where
  "tunnel_out_fifo held tr \<longleftrightarrow>
     data_of (over_trace taken_event tr) = data_of (over_trace sent_event tr) @ data_of held"

definition tunnel_pongs :: "TunnelMessage list \<Rightarrow> tunnel_event list \<Rightarrow> bool" where
  "tunnel_pongs held tr \<longleftrightarrow>
     count_list (map is_data (over_trace sent_event tr @ held)) False
       \<le> count_list (map is_data (over_trace taken_event tr @ over_trace received_event tr)) False"

definition tunnel_in_routed :: "SocketHandle list \<Rightarrow> tunnel_event list \<Rightarrow> bool" where
  "tunnel_in_routed handles tr \<longleftrightarrow>
     over_trace delivered_event tr = concat (map (route handles) (over_trace received_event tr))"

lemmas tunnel_trace_defs = tunnel_out_fifo_def tunnel_pongs_def tunnel_in_routed_def

definition tunnel_inv :: "'w tunnel_env \<Rightarrow> 'w Tunnel \<Rightarrow> bool" where
  "tunnel_inv env this \<longleftrightarrow>
     framed_sends env \<and> length (pool this) = SOCKET_POOL_SIZE \<and>
     write_state this \<noteq> Stop \<and> write_state this \<noteq> Write None \<and>
     tunnel_out_fifo (in_flight (write_state this)) (trace this) \<and>
     tunnel_pongs (in_flight (write_state this)) (trace this) \<and>
     tunnel_in_routed (pool this) (trace this)"

text \<open>Between the loops, the write half is armed, but for a flush that a keep-alive left behind.\<close>

definition tunnel_mid :: "'w tunnel_env \<Rightarrow> 'w Tunnel \<Rightarrow> bool" where
  "tunnel_mid env this \<longleftrightarrow>
     tunnel_inv env this \<and> (write_armed (write_state this) (trace this) \<or> write_state this = Flush)"

definition tunnel_post :: "'w tunnel_env \<Rightarrow> 'w Tunnel \<Rightarrow> bool" where
  "tunnel_post env this \<longleftrightarrow> tunnel_mid env this \<and> read_armed (trace this)"

text \<open>When the tunnel stops, at most the message being written is lost.\<close>

definition tunnel_fin :: "'w Tunnel \<Rightarrow> bool" where
  "tunnel_fin this \<longleftrightarrow>
     (\<exists>lost. length lost \<le> 1 \<and> tunnel_out_fifo lost (trace this)) \<and>
     tunnel_in_routed (pool this) (trace this)"

lemma framed_sendsD: "framed_sends env \<Longrightarrow> fst (io_start_send env m w) = Inr ()"
  by (metis framed_sends_def fst_conv tunnel_encode_eq)

lemma tunnel_poll_write_Some:
  assumes "framed_sends env" and "write_state t = Write (Some m)"
  shows "tunnel_poll_write_state env t =
    (case io_poll_ready env (world t) of
       (Pending, w) \<Rightarrow>
         (Ret Pending, t\<lparr>world := w, trace := trace t @ [IoPollReady Pending]\<rparr>)
     | (Ready (Inl e), w) \<Rightarrow>
         (Ret (Ready Stop), t\<lparr>world := w, trace := trace t @ [IoPollReady (Ready (Inl e))]\<rparr>)
     | (Ready (Inr _), w) \<Rightarrow>
         (Ret (Ready Flush),
          t\<lparr>write_state := Write None, world := snd (io_start_send env m w),
            trace := trace t @ [IoPollReady (Ready (Inr ())), IoStartSend m (Inr ())]\<rparr>))"
  using assms(2) framed_sendsD [OF assms(1)]
  by (simp add: tunnel_poll_write_state_def tunnel_call_def case_prod_beta
      split: poll.split sum.split)

lemma tunnel_call_eq:
  "tunnel_call f event t = (r, t') \<longleftrightarrow>
     (\<exists>w. f (world t) = (r, w) \<and> t' = t\<lparr>world := w, trace := trace t @ [event r]\<rparr>)"
  by (auto simp: tunnel_call_def split: prod.splits)

text \<open>How the three trace predicates change with each event.\<close>

fun quiet :: "tunnel_event \<Rightarrow> bool" where
  "quiet (RxPollRecv (Ready (Some m))) = False"
| "quiet (IoStartSend m r) = False"
| "quiet (IoPollNext (Ready (Some (Inr m)))) = False"
| "quiet (HandleSend h m ok) = False"
| "quiet _ = True"

lemma quiet_events: "quiet e \<Longrightarrow> taken_event e = [] \<and> sent_event e = [] \<and> received_event e = [] \<and> delivered_event e = []"
  by (cases e rule: quiet.cases) simp_all

lemma tunnel_trace_quiet [simp]:
  assumes "quiet e"
  shows "tunnel_out_fifo held (tr @ e # es) = tunnel_out_fifo held (tr @ es)"
    and "tunnel_pongs held (tr @ e # es) = tunnel_pongs held (tr @ es)"
    and "tunnel_in_routed handles (tr @ e # es) = tunnel_in_routed handles (tr @ es)"
    and "tunnel_out_fifo held (tr @ d # e # es) = tunnel_out_fifo held (tr @ d # es)"
    and "tunnel_pongs held (tr @ d # e # es) = tunnel_pongs held (tr @ d # es)"
    and "tunnel_in_routed handles (tr @ d # e # es) = tunnel_in_routed handles (tr @ d # es)"
  using quiet_events [OF assms] by (simp_all add: tunnel_trace_defs)

lemma tunnel_trace_taken [simp]:
  "tunnel_out_fifo [m] (tr @ [RxPollRecv (Ready (Some m))]) = tunnel_out_fifo [] tr"
  "tunnel_pongs [] tr \<Longrightarrow> tunnel_pongs [m] (tr @ [RxPollRecv (Ready (Some m))])"
  "tunnel_in_routed handles (tr @ [RxPollRecv (Ready (Some m))]) = tunnel_in_routed handles tr"
  by (auto simp: tunnel_trace_defs)

lemma tunnel_trace_sent [simp]:
  "tunnel_out_fifo [] (tr @ [IoStartSend m r]) = tunnel_out_fifo [m] tr"
  "tunnel_pongs [] (tr @ [IoStartSend m r]) = tunnel_pongs [m] tr"
  "tunnel_pongs [] (tr @ [e, IoStartSend m r]) = tunnel_pongs [m] (tr @ [e])"
  "tunnel_in_routed handles (tr @ [IoStartSend m r]) = tunnel_in_routed handles tr"
  by (auto simp: tunnel_trace_defs)

lemma tunnel_trace_received [simp]:
  "tunnel_out_fifo held (tr @ IoPollNext (Ready (Some (Inr m))) # es) = tunnel_out_fifo held (tr @ es)"
  "tunnel_pongs held tr \<Longrightarrow> tunnel_pongs held (tr @ [IoPollNext (Ready (Some (Inr m)))])"
  "route handles m = [] \<Longrightarrow>
   tunnel_in_routed handles (tr @ IoPollNext (Ready (Some (Inr m))) # es) = tunnel_in_routed handles (tr @ es)"
  by (auto simp: tunnel_trace_defs)

lemma tunnel_trace_delivered [simp]:
  "tunnel_out_fifo held (tr @ [HandleSend h m ok]) = tunnel_out_fifo held tr"
  "tunnel_pongs held (tr @ [HandleSend h m ok]) = tunnel_pongs held tr"
  "tunnel_pongs held tr \<Longrightarrow>
   tunnel_pongs held (tr @ [IoPollNext (Ready (Some (Inr m'))), HandleSend h m ok])"
  "route handles m = [(h, m)] \<Longrightarrow>
   tunnel_in_routed handles (tr @ [IoPollNext (Ready (Some (Inr m))), HandleSend h m ok]) =
     tunnel_in_routed handles tr"
  by (auto simp: tunnel_trace_defs)

lemma tunnel_trace_ping [simp]:
  assumes "tm_index m = 255"
  shows "route handles m = []"
    and "tunnel_out_fifo [pong] tr = tunnel_out_fifo [] tr"
    and "tunnel_pongs [] tr \<Longrightarrow> tunnel_pongs [pong] (tr @ [IoPollNext (Ready (Some (Inr m)))])"
  using assms by (auto simp: tunnel_trace_defs route_def pong_def)

lemma tunnel_finI:
  "tunnel_out_fifo held (trace t) \<Longrightarrow> length held \<le> 1 \<Longrightarrow> tunnel_in_routed (pool t) (trace t) \<Longrightarrow>
   tunnel_fin t"
  unfolding tunnel_fin_def by blast

lemma in_flight_length: "length (in_flight st) \<le> 1"
  by (cases st rule: in_flight.cases) auto

lemma tunnel_inv_fin: "tunnel_inv env t \<Longrightarrow> tunnel_fin t"
  unfolding tunnel_inv_def using tunnel_finI in_flight_length by blast

section \<open>The loops keep the invariant\<close>

lemma tunnel_write_step_ok:
  assumes "tunnel_inv env t"
  shows "flow_all (tunnel_inv env) (tunnel_mid env) tunnel_fin (tunnel_write_step env t)"
proof (cases "write_state t")
  case Recv
  with assms show ?thesis
    by (auto simp: tunnel_write_step_def tunnel_poll_write_state_def tunnel_call_def tunnel_inv_def
      tunnel_mid_def intro: tunnel_finI [of "[]"] split: prod.splits poll.splits option.splits)
next
  case (Write x)
  with assms obtain m where m: "write_state t = Write (Some m)" and "framed_sends env"
    by (cases x) (auto simp: tunnel_inv_def)
  with assms show ?thesis
    by (auto simp: tunnel_write_step_def tunnel_poll_write_Some tunnel_inv_def tunnel_mid_def
      intro: tunnel_finI [of "[m]"] split: prod.splits poll.splits sum.splits)
next
  case Flush
  with assms show ?thesis
    by (auto simp: tunnel_write_step_def tunnel_poll_write_state_def tunnel_call_def tunnel_inv_def
      tunnel_mid_def intro: tunnel_finI [of "[]"] split: prod.splits poll.splits sum.splits)
next
  case Stop
  with assms show ?thesis by (simp add: tunnel_inv_def)
qed

lemma write_armed_append [simp]:
  "write_armed st (tr @ [IoPollNext r]) = write_armed st tr"
  "write_armed st (tr @ [IoPollNext r, HandleSend h m ok]) = write_armed st tr"
  by (cases st; simp)+

lemma tunnel_reply_ping_ok:
  assumes "tunnel_mid env t" and "tm_index m = 255"
    and "tunnel_reply_ping env (t\<lparr>world := w, trace := trace t @ [IoPollNext (Ready (Some (Inr m)))]\<rparr>) = (r, t')"
  shows "r = Ret (Ready ReadContinue) \<and> tunnel_mid env t' \<or> r = Ret (Ready ReadStop) \<and> tunnel_fin t'"
proof (cases "write_state t = Recv")
  case True
  from assms(1) have "framed_sends env" by (simp add: tunnel_mid_def tunnel_inv_def)
  with assms True show ?thesis
    by (auto simp: tunnel_reply_ping_def tunnel_poll_write_Some tunnel_inv_def
      tunnel_mid_def tunnel_finI [of "[]"]
      split: prod.splits poll.splits sum.splits)
next
  case False
  with assms show ?thesis
    by (auto simp: tunnel_reply_ping_def tunnel_mid_def tunnel_inv_def)
qed

lemma tunnel_read_step_ok:
  assumes "tunnel_mid env t"
  shows "flow_all (tunnel_mid env) (tunnel_post env) tunnel_fin (tunnel_read_step env t)"
proof -
  obtain r w where call: "io_poll_next env (world t) = (r, w)"
    by (meson surj_pair)
  have quiet: "tunnel_mid env (t\<lparr>world := w, trace := trace t @ [IoPollNext r]\<rparr>)"
    if "quiet (IoPollNext r)"
    using assms that by (simp add: tunnel_mid_def tunnel_inv_def)
  show ?thesis
  proof (cases "IoPollNext r" rule: received_event.cases)
    case (1 m)
    then show ?thesis
    proof (cases "tm_index m = 255")
      case True
      obtain r' t' where reply: "tunnel_reply_ping env
          (t\<lparr>world := w, trace := trace t @ [IoPollNext (Ready (Some (Inr m)))]\<rparr>) = (r', t')"
        by (meson surj_pair)
      from tunnel_reply_ping_ok [OF assms True this] show ?thesis
        using 1 call True reply
        by (auto simp: tunnel_read_step_def tunnel_poll_read_state_def tunnel_call_def)
    next
      case False
      with 1 call assms show ?thesis
        by (auto simp: tunnel_read_step_def tunnel_poll_read_state_def tunnel_call_def Let_def
          tunnel_mid_def tunnel_inv_def route_def split: prod.splits)
    qed
  qed (use call quiet in \<open>auto simp: tunnel_read_step_def tunnel_poll_read_state_def tunnel_call_def
      tunnel_post_def read_armed_def tunnel_mid_def dest!: tunnel_inv_fin\<close>)
qed

interpretation tun: poll_loops "tunnel_write_step env" "tunnel_read_step env"
    "tunnel_inv env" "tunnel_mid env" "tunnel_post env" tunnel_fin
  for env :: "'w tunnel_env"
  by unfold_locales (simp_all add: tunnel_write_step_ok tunnel_read_step_ok)

text \<open>
  An environment that has only finitely many messages ready: each ready answer of the sockets'
  channel or of the server stream uses up some of \<open>fuel\<close>, and no other call adds to it.
\<close>

definition tunnel_finite :: "'w tunnel_env \<Rightarrow> ('w \<Rightarrow> nat) \<Rightarrow> bool" where
  "tunnel_finite env fuel \<longleftrightarrow>
     (\<forall>w. fuel (snd (rx_poll_recv env w)) \<le> fuel w) \<and>
     (\<forall>w. fst (rx_poll_recv env w) \<noteq> Pending \<longrightarrow> fuel (snd (rx_poll_recv env w)) < fuel w) \<and>
     (\<forall>w. fuel (snd (io_poll_ready env w)) \<le> fuel w) \<and>
     (\<forall>m w. fuel (snd (io_start_send env m w)) \<le> fuel w) \<and>
     (\<forall>w. fuel (snd (io_poll_flush env w)) \<le> fuel w) \<and>
     (\<forall>w. fst (io_poll_next env w) \<noteq> Pending \<longrightarrow> fuel (snd (io_poll_next env w)) < fuel w) \<and>
     (\<forall>h m w. fuel (snd (handle_send env h m w)) \<le> fuel w)"

fun write_weight :: "TunnelWriteState \<Rightarrow> nat" where
  "write_weight (Write m) = 2"
| "write_weight Flush = 1"
| "write_weight _ = 0"

definition tunnel_wmu :: "('w \<Rightarrow> nat) \<Rightarrow> 'w Tunnel \<Rightarrow> nat" where
  "tunnel_wmu fuel this = 3 * fuel (world this) + write_weight (write_state this)"

lemma tunnel_finiteD:
  assumes "tunnel_finite env fuel"
  shows "rx_poll_recv env w = (Ready x, w') \<Longrightarrow> fuel w' < fuel w"
    and "io_poll_ready env w = (r1, w') \<Longrightarrow> fuel w' \<le> fuel w"
    and "io_start_send env m w = (r2, w') \<Longrightarrow> fuel w' \<le> fuel w"
    and "io_poll_flush env w = (r1, w') \<Longrightarrow> fuel w' \<le> fuel w"
    and "io_poll_next env w = (Ready y, w') \<Longrightarrow> fuel w' < fuel w"
    and "handle_send env h m w = (ok, w') \<Longrightarrow> fuel w' \<le> fuel w"
  using assms unfolding tunnel_finite_def by (metis fst_conv snd_conv poll.distinct(1))+

lemma tunnel_write_step_less:
  assumes "tunnel_finite env fuel" and "tunnel_write_step env t = Again t'"
  shows "tunnel_wmu fuel t' < tunnel_wmu fuel t"
  using assms(2)
  by (cases "write_state t")
    (auto simp: tunnel_write_step_def tunnel_poll_write_state_def tunnel_call_def tunnel_wmu_def
      Let_def dest!: tunnel_finiteD [OF assms(1)]
      split: prod.splits poll.splits option.splits sum.splits if_splits)

lemma tunnel_reply_ping_fuel:
  assumes "tunnel_finite env fuel" and "tunnel_reply_ping env t = (r, t')"
  shows "fuel (world t') \<le> fuel (world t)"
  using assms(2)
  by (auto simp: tunnel_reply_ping_def tunnel_poll_write_state_def tunnel_call_def
      dest!: tunnel_finiteD [OF assms(1)]
      split: prod.splits poll.splits sum.splits if_splits)

lemma tunnel_read_step_less:
  assumes "tunnel_finite env fuel" and "tunnel_read_step env t = Again t'"
  shows "fuel (world t') < fuel (world t)"
proof -
  obtain r w where call: "io_poll_next env (world t) = (r, w)"
    by (meson surj_pair)
  with assms(2) obtain x where x: "r = Ready (Some (Inr x))"
    by (auto simp: tunnel_read_step_def tunnel_poll_read_state_def tunnel_call_def
        split: poll.splits option.splits sum.splits)
  with call have less: "fuel w < fuel (world t)"
    by (auto dest: tunnel_finiteD [OF assms(1)])
  have "fuel (world t') \<le> fuel w"
  proof (cases "tm_index x = 255")
    case True
    obtain q t1 where reply: "tunnel_reply_ping env (t\<lparr>world := w, trace := trace t @ [IoPollNext r]\<rparr>) = (q, t1)"
      by (meson surj_pair)
    from tunnel_reply_ping_fuel [OF assms(1) this] show ?thesis
      using assms(2) call x True reply
      by (auto simp: tunnel_read_step_def tunnel_poll_read_state_def tunnel_call_def
          split: outcome.splits poll.splits if_splits)
  next
    case False
    with assms(2) call x show ?thesis
      by (auto simp: tunnel_read_step_def tunnel_poll_read_state_def tunnel_call_def Let_def
          dest!: tunnel_finiteD [OF assms(1)] split: prod.splits if_splits)
  qed
  with less show ?thesis by simp
qed

interpretation tun_total: poll_terminates "tunnel_write_step env" "tunnel_read_step env"
    "\<lambda>t. tunnel_inv env t \<and> tunnel_finite env fuel" "\<lambda>t. tunnel_mid env t \<and> tunnel_finite env fuel"
    "tunnel_post env" tunnel_fin "\<lambda>_ _. False" "tunnel_wmu fuel" "\<lambda>t. fuel (world t)"
  for env :: "'w tunnel_env" and fuel :: "'w \<Rightarrow> nat"
proof unfold_locales
  fix s
  show "tunnel_inv env s \<and> tunnel_finite env fuel \<Longrightarrow>
      flow_all (\<lambda>t. tunnel_inv env t \<and> tunnel_finite env fuel)
        (\<lambda>t. tunnel_mid env t \<and> tunnel_finite env fuel) tunnel_fin (tunnel_write_step env s)"
    by (simp add: flow_sat_conj tunnel_write_step_ok)
  show "tunnel_mid env s \<and> tunnel_finite env fuel \<Longrightarrow>
      flow_all (\<lambda>t. tunnel_mid env t \<and> tunnel_finite env fuel) (tunnel_post env) tunnel_fin
        (tunnel_read_step env s)"
    using tunnel_read_step_ok [of env s] by (cases "tunnel_read_step env s") auto
qed (blast intro: tunnel_write_step_less tunnel_read_step_less)+

section \<open>Live tunnels\<close>

lemma tunnel_inv_new:
  "framed_sends env \<Longrightarrow> length handles = SOCKET_POOL_SIZE \<Longrightarrow> tunnel_inv env (new_tunnel handles w)"
  by (simp add: tunnel_inv_def new_tunnel_def tunnel_trace_defs)

lemma tunnel_inv_world [simp]: "tunnel_inv env (t\<lparr>world := w\<rparr>) = tunnel_inv env t"
  by (simp add: tunnel_inv_def)

lemma tunnel_poll_result:
  assumes "tunnel_inv env t" and "tunnel_poll env t = Some (r, t')"
  shows "r = Ret Pending \<and> tunnel_post env t' \<or> r = Ret (Ready ()) \<and> tunnel_fin t'"
  using assms unfolding tunnel_poll_def by (rule tun.poll_ok)

lemma tunnel_live_inv: "tunnel_live env t \<Longrightarrow> framed_sends env \<Longrightarrow> tunnel_inv env t"
proof (induction rule: tunnel_live.induct)
  case (start handles w)
  then show ?case by (simp add: tunnel_inv_new)
next
  case (again t t' w)
  then show ?case
    using tunnel_poll_result by (fastforce simp: tunnel_post_def tunnel_mid_def)
qed

section \<open>A scripted environment\<close>

text \<open>
  For the witnesses: the world is the messages waiting in the sockets' channel and on the server
  stream; the stream is always writable.
\<close>

type_synonym script = "TunnelMessage list \<times> TunnelMessage list"

definition scripted_env :: "script tunnel_env" where
  "scripted_env =
     \<lparr>rx_poll_recv = (\<lambda>(out, inc). case out of [] \<Rightarrow> (Pending, (out, inc)) | m # ms \<Rightarrow> (Ready (Some m), (ms, inc))),
      io_poll_ready = (\<lambda>w. (Ready (Inr ()), w)),
      io_start_send = (\<lambda>m w. (fst (tunnel_encode m []), w)),
      io_poll_flush = (\<lambda>w. (Ready (Inr ()), w)),
      io_poll_next = (\<lambda>(out, inc). case inc of [] \<Rightarrow> (Pending, (out, inc)) | m # ms \<Rightarrow> (Ready (Some (Inr m)), (out, ms))),
      handle_send = (\<lambda>h m w. (True, w))\<rparr>"

definition four_handles :: "SocketHandle list" where
  "four_handles = map SocketHandle [0, 1, 2, 3]"

definition tmsg :: "u8 \<Rightarrow> bytes \<Rightarrow> TunnelMessage" where
  "tmsg i bs = \<lparr>tm_index = i, tm_message = bs\<rparr>"

lemma scripted_sends: "framed_sends scripted_env"
  by (auto simp: framed_sends_def scripted_env_def)

lemma scripted_finite: "tunnel_finite scripted_env (\<lambda>(out, inc). length out + length inc)"
  by (auto simp: tunnel_finite_def scripted_env_def split: list.splits)

lemma scripted_live: "tunnel_live scripted_env (new_tunnel four_handles w)"
  by (rule tunnel_live.start) (simp add: four_handles_def SOCKET_POOL_SIZE_def)

text \<open>One poll with a message from socket 1, and a message for socket 2 and a keep-alive waiting.\<close>

lemma scripted_poll:
  "tunnel_poll scripted_env (new_tunnel four_handles ([tmsg 1 [7]], [tmsg 2 [8, 9], tmsg 255 []])) =
     Some (Ret Pending,
       \<lparr>pool = four_handles, write_state = Flush, world = ([], []),
        trace = [RxPollRecv (Ready (Some (tmsg 1 [7]))), IoPollReady (Ready (Inr ())),
          IoStartSend (tmsg 1 [7]) (Inr ()), IoPollFlush (Ready (Inr ())), RxPollRecv Pending,
          IoPollNext (Ready (Some (Inr (tmsg 2 [8, 9])))),
          HandleSend (SocketHandle 2) (tmsg 2 [8, 9]) True,
          IoPollNext (Ready (Some (Inr (tmsg 255 [])))), IoPollReady (Ready (Inr ())),
          IoStartSend pong (Inr ()), IoPollNext Pending]\<rparr>)"
  by (simp add: tunnel_poll_def poll_future_def while_let_unfold tunnel_write_step_def
      tunnel_poll_write_state_def tunnel_read_step_def tunnel_poll_read_state_def
      tunnel_reply_ping_def tunnel_call_def new_tunnel_def scripted_env_def tmsg_def pong_def
      four_handles_def tunnel_encode_def Let_def)

section \<open>Properties\<close>

text \<open>C8: No poll of a live tunnel panics: it is never polled in the stopped state, never without
  the message it is to write, and the encoder it uses never fails. The only assumption is that
  the framed stream answers a send with what the encoder answered.\<close>
theorem tunnel_never_panics:
  assumes "framed_sends env" and "tunnel_live env t"
  shows "tunnel_poll env t \<noteq> Some (Panic msg, t')"
  using tunnel_poll_result tunnel_live_inv assms by fastforce

theorem tunnel_never_panics_witness:
  "\<not> (\<exists>msg t'. tunnel_poll scripted_env (new_tunnel four_handles ([tmsg 1 [7]], [tmsg 255 []])) =
    Some (Panic msg, t'))"
  using tunnel_never_panics [OF scripted_sends scripted_live] by blast

lemma tunnel_outbound:
  assumes "framed_sends env" and "tunnel_live env t" and "tunnel_poll env t = Some (r, t')"
  shows "\<exists>held. length held \<le> 1 \<and> (r = Ret Pending \<longrightarrow> held = in_flight (write_state t')) \<and>
    data_of (over_trace taken_event (trace t')) =
      data_of (over_trace sent_event (trace t')) @ data_of held"
proof -
  have "tunnel_inv env t" using assms(1,2) by (simp add: tunnel_live_inv)
  from tunnel_poll_result [OF this assms(3)] show ?thesis
    using in_flight_length
    by (auto simp: tunnel_post_def tunnel_mid_def tunnel_inv_def tunnel_fin_def tunnel_out_fifo_def)
qed

text \<open>C2: Over the whole life of a tunnel, the data messages handed to the server stream are the
  data messages taken from the sockets, in that order, without loss or duplication: only the
  message being written may be missing at the end. Keep-alive answers do not disturb them.\<close>
theorem tunnel_outbound_fifo:
  assumes "framed_sends env" and "tunnel_live env t" and "tunnel_poll env t = Some (r, t')"
  shows "\<exists>held. length held \<le> 1 \<and> (r = Ret Pending \<longrightarrow> held = in_flight (write_state t')) \<and>
    data_of (over_trace taken_event (trace t')) =
      data_of (over_trace sent_event (trace t')) @ data_of held"
  using assms by (rule tunnel_outbound)

theorem tunnel_outbound_fifo_witness:
  "\<exists>r t'. tunnel_poll scripted_env (new_tunnel four_handles ([tmsg 1 [7]], [tmsg 2 [8, 9], tmsg 255 []])) = Some (r, t') \<and>
    (\<exists>held. length held \<le> 1 \<and> (r = Ret Pending \<longrightarrow> held = in_flight (write_state t')) \<and>
      data_of (over_trace taken_event (trace t')) =
        data_of (over_trace sent_event (trace t')) @ data_of held)"
  using tunnel_outbound_fifo [OF scripted_sends scripted_live scripted_poll] scripted_poll by blast

text \<open>C3: Over the whole life of a tunnel, what is delivered to the local sockets is what the server
  stream gave, in that order: each message goes to the socket of its index, once; keep-alives and
  messages whose index is outside the pool of four are dropped.\<close>
theorem tunnel_inbound_routing:
  assumes "framed_sends env" and "tunnel_live env t" and "tunnel_poll env t = Some (r, t')"
  shows "over_trace delivered_event (trace t') =
    concat (map (route (pool t')) (over_trace received_event (trace t')))"
proof -
  have "tunnel_inv env t" using assms(1,2) by (simp add: tunnel_live_inv)
  from tunnel_poll_result [OF this assms(3)] show ?thesis
    by (auto simp: tunnel_post_def tunnel_mid_def tunnel_inv_def tunnel_fin_def tunnel_in_routed_def)
qed

theorem tunnel_inbound_routing_witness:
  "\<exists>r t'. tunnel_poll scripted_env (new_tunnel four_handles ([tmsg 1 [7]], [tmsg 2 [8, 9], tmsg 255 []])) = Some (r, t') \<and>
    over_trace delivered_event (trace t') =
      concat (map (route (pool t')) (over_trace received_event (trace t')))"
  using tunnel_inbound_routing [OF scripted_sends scripted_live scripted_poll] scripted_poll by blast

text \<open>C29: A poll of a live tunnel returns, when the environment has only finitely many messages
  ready: neither the write loop nor the read loop spins.\<close>
theorem tunnel_poll_returns:
  assumes "framed_sends env" and "tunnel_live env t" and "tunnel_finite env fuel"
  shows "\<exists>r t'. tunnel_poll env t = Some (r, t')"
  unfolding tunnel_poll_def
  by (rule tun_total.poll_returns) (use assms tunnel_live_inv in blast)

theorem tunnel_poll_returns_witness:
  "\<exists>r t'. tunnel_poll scripted_env (new_tunnel four_handles ([tmsg 1 [7]], [tmsg 255 []])) = Some (r, t')"
  by (rule tunnel_poll_returns [OF scripted_sends scripted_live scripted_finite])

text \<open>C32: When a live tunnel answers pending, the server stream will wake it for reading, and the
  source its write half waits for will wake it too, except in one state: a flush that is left
  over may have nobody to wake for it.\<close>
theorem tunnel_pending_wakes:
  assumes "framed_sends env" and "tunnel_live env t" and "tunnel_poll env t = Some (Ret Pending, t')"
  shows "read_armed (trace t') \<and> (write_armed (write_state t') (trace t') \<or> write_state t' = Flush)"
proof -
  have "tunnel_inv env t" using assms(1,2) by (simp add: tunnel_live_inv)
  from tunnel_poll_result [OF this assms(3)] show ?thesis
    by (auto simp: tunnel_post_def tunnel_mid_def)
qed

theorem tunnel_pending_wakes_witness:
  "\<exists>t'. tunnel_poll scripted_env (new_tunnel four_handles ([tmsg 1 [7]], [tmsg 2 [8, 9], tmsg 255 []])) = Some (Ret Pending, t') \<and>
    read_armed (trace t') \<and> (write_armed (write_state t') (trace t') \<or> write_state t' = Flush)"
  using tunnel_pending_wakes [OF scripted_sends scripted_live scripted_poll] scripted_poll by blast

text \<open>C35: The exception of the previous property happens: when an idle tunnel receives a keep-alive
  and nothing else, the answer is put into the write buffer but the poll ends without calling
  flush, so nothing sends the answer until some other event wakes the task.\<close>
theorem tunnel_ping_left_unflushed:
  assumes "write_state t = Recv" and "tm_index m = 255"
    and "rx_poll_recv env (world t) = (Pending, w1)"
    and "io_poll_next env w1 = (Ready (Some (Inr m)), w2)"
    and "io_poll_ready env w2 = (Ready (Inr ()), w3)"
    and "io_start_send env pong w3 = (Inr (), w4)"
    and "io_poll_next env w4 = (Pending, w5)"
  shows "\<exists>t'. tunnel_poll env t = Some (Ret Pending, t') \<and> write_state t' = Flush \<and>
    over_trace sent_event (trace t') = over_trace sent_event (trace t) @ [pong] \<and>
    last_of is_IoPollFlush (trace t') = last_of is_IoPollFlush (trace t)"
  using assms
  by (simp add: tunnel_poll_def poll_future_def while_let_unfold tunnel_write_step_def
      tunnel_poll_write_state_def tunnel_read_step_def tunnel_poll_read_state_def
      tunnel_reply_ping_def tunnel_call_def Let_def)

theorem tunnel_ping_left_unflushed_witness:
  "let t = new_tunnel four_handles ([], [tmsg 255 []]) in
   \<exists>t'. tunnel_poll scripted_env t = Some (Ret Pending, t') \<and> write_state t' = Flush \<and>
    over_trace sent_event (trace t') = over_trace sent_event (trace t) @ [pong] \<and>
    last_of is_IoPollFlush (trace t') = last_of is_IoPollFlush (trace t)"
  unfolding Let_def
  by (rule tunnel_ping_left_unflushed [where m = "tmsg 255 []" and ?w1.0 = "([], [tmsg 255 []])" and
      ?w2.0 = "([], [])" and ?w3.0 = "([], [])" and ?w4.0 = "([], [])" and ?w5.0 = "([], [])"])
    (simp_all add: new_tunnel_def tmsg_def scripted_env_def tunnel_encode_def)

text \<open>Keep-alive answers are never volunteered: at any time, at most as many have been sent as
  keep-alives were received (or came from the sockets, which have no such index).\<close>
theorem tunnel_pongs_bounded:
  assumes "framed_sends env" and "tunnel_live env t"
  shows "count_list (map tm_index (over_trace sent_event (trace t))) 255
    \<le> count_list (map tm_index (over_trace taken_event (trace t) @ over_trace received_event (trace t))) 255"
proof -
  have cnt: "count_list (map is_data ms) False = count_list (map tm_index ms) 255" for ms
    by (induction ms) auto
  have "tunnel_inv env t" using assms by (simp add: tunnel_live_inv)
  then have "tunnel_pongs (in_flight (write_state t)) (trace t)"
    by (simp add: tunnel_inv_def)
  then show ?thesis
    by (simp add: tunnel_pongs_def flip: cnt)
qed

theorem tunnel_pongs_bounded_witness:
  "\<exists>t. tunnel_live scripted_env t \<and>
    count_list (map tm_index (over_trace sent_event (trace t))) 255 = 1 \<and>
    1 \<le> count_list (map tm_index (over_trace taken_event (trace t) @ over_trace received_event (trace t))) 255"
proof -
  note live = tunnel_live.again [OF scripted_live scripted_poll, of "([], [])"]
  from tunnel_pongs_bounded [OF scripted_sends live] live show ?thesis
    by (intro exI conjI) (assumption, simp_all add: tmsg_def pong_def)
qed

end
