(* ===== verification/Udp_Tunnel.thy ===== *)
theory Udp_Tunnel
  imports Poll_Loop
begin

text \<open>
  The \<^verbatim>\<open>Tunnel\<close> future of \<^verbatim>\<open>src/src/servers/udp_tunnel.rs\<close>. As in \<open>Tunnel\<close>, the operations of
  tokio are functions on a world, the fields of \<open>udp_env\<close>, and every call is recorded in
  \<open>u_trace\<close>. The crate \<^verbatim>\<open>pocket_relay_udp_tunnel\<close> gives the message type, of which the source
  names four variants (the rest are \<open>OtherMessage\<close>), and the two functions \<open>u_serialize\<close> and
  \<open>u_deserialize\<close>, which stay parameters. Instants are milliseconds; how two are compared
  (\<^verbatim>\<open>tokio::time::Instant::duration_since\<close>) is the parameter \<open>u_duration_since\<close>.
\<close>

section \<open>State\<close>

datatype UdpMessage = Initiate rstring | Initiated u32 | Forward u8 bytes | KeepAlive | OtherMessage nat

definition UDP_SOCKET_POOL_SIZE :: nat where
  "UDP_SOCKET_POOL_SIZE = 4"

definition KEEP_ALIVE_DELAY :: nat where
  "KEEP_ALIVE_DELAY = 10 * 1000"

definition KEEP_ALIVE_TIMEOUT :: nat where
  "KEEP_ALIVE_TIMEOUT = ((KEEP_ALIVE_DELAY div 1000) * 4) * 1000"

datatype UdpSocketHandle = UdpSocketHandle nat

datatype UdpWriteState = UdpRecv | UdpWrite "UdpMessage option" | UdpStop

datatype UdpReadState = UdpReadContinue | UdpReadStop

record 'w udp_env =
  u_rx_poll_recv :: "'w \<Rightarrow> UdpMessage option poll \<times> 'w"
  u_poll_send_ready :: "'w \<Rightarrow> (io_error + unit) poll \<times> 'w"
  u_poll_send :: "bytes \<Rightarrow> 'w \<Rightarrow> (io_error + nat) poll \<times> 'w"
  u_poll_tick :: "'w \<Rightarrow> unit poll \<times> 'w"
  u_now :: "'w \<Rightarrow> nat \<times> 'w"
  u_poll_recv_ready :: "'w \<Rightarrow> (io_error + unit) poll \<times> 'w"
  u_poll_recv :: "nat \<Rightarrow> 'w \<Rightarrow> (io_error + bytes) poll \<times> 'w"
  u_handle_send :: "UdpSocketHandle \<Rightarrow> bytes \<Rightarrow> 'w \<Rightarrow> bool \<times> 'w"
  u_duration_since :: "nat \<Rightarrow> nat \<Rightarrow> nat"
  u_serialize :: "u32 \<Rightarrow> UdpMessage \<Rightarrow> bytes"
  u_deserialize :: "bytes \<Rightarrow> string + UdpMessage"

text \<open>
  A send is recorded with the message besides the bytes, and a received packet with the message
  it was deserialized to.
\<close>

datatype udp_event =
    URxPollRecv "UdpMessage option poll"
  | UPollSendReady "(io_error + unit) poll"
  | UPollSend UdpMessage bytes "(io_error + nat) poll"
  | UPollTick "unit poll"
  | UNow nat
  | UPollRecvReady "(io_error + unit) poll"
  | UPollRecv "(io_error + bytes) poll"
  | UDeserialize "string + UdpMessage"
  | UHandleSend UdpSocketHandle bytes bool

record 'w UdpTunnel =
  u_tunnel_id :: u32
  u_pool :: "UdpSocketHandle list"
  u_write_state :: UdpWriteState
  u_last_keep_alive :: nat
  u_world :: 'w
  u_trace :: "udp_event list"

definition udp_call ::
  "('w \<Rightarrow> 'r \<times> 'w) \<Rightarrow> ('r \<Rightarrow> udp_event) \<Rightarrow> 'w UdpTunnel \<Rightarrow> 'r \<times> 'w UdpTunnel" where
  "udp_call f event this =
     (let (r, w) = f (u_world this)
      in (r, this\<lparr>u_world := w, u_trace := u_trace this @ [event r]\<rparr>))"

section \<open>The write half\<close>

text \<open>
  The message is taken out of the write state before it is sent: when the send answers pending,
  the write state stays without a message.
\<close>

definition udp_poll_write_state ::
  "'w udp_env \<Rightarrow> 'w UdpTunnel \<Rightarrow> UdpWriteState poll outcome \<times> 'w UdpTunnel" where
  "udp_poll_write_state env this =
     (case u_write_state this of
        UdpRecv \<Rightarrow>
          (case udp_call (u_rx_poll_recv env) URxPollRecv this of
             (Pending, this) \<Rightarrow> (Ret Pending, this)
           | (Ready (Some message), this) \<Rightarrow> (Ret (Ready (UdpWrite (Some message))), this)
           | (Ready None, this) \<Rightarrow> (Ret (Ready UdpStop), this))
      | UdpWrite message \<Rightarrow>
          (case udp_call (u_poll_send_ready env) UPollSendReady this of
             (Pending, this) \<Rightarrow> (Ret Pending, this)
           | (Ready (Inr _), this) \<Rightarrow>
               (case message of
                  None \<Rightarrow> (Panic ''Unexpected write state without message'', this)
                | Some m \<Rightarrow>
                    let this = this\<lparr>u_write_state := UdpWrite None\<rparr>;
                        buffer = u_serialize env (u_tunnel_id this) m
                    in (case udp_call (u_poll_send env buffer) (UPollSend m buffer) this of
                          (Pending, this) \<Rightarrow> (Ret Pending, this)
                        | (Ready (Inl e), this) \<Rightarrow> (Panic ''Message encoder errored'', this)
                        | (Ready (Inr n), this) \<Rightarrow> (Ret (Ready UdpRecv), this)))
           | (Ready (Inl e), this) \<Rightarrow> (Ret (Ready UdpStop), this))
      | UdpStop \<Rightarrow> (Panic ''Tunnel polled after already stopped'', this))"

section \<open>The read half\<close>

text \<open>The keep-alive check at the start of each read: has the connection expired?\<close>

definition udp_check_alive :: "'w udp_env \<Rightarrow> 'w UdpTunnel \<Rightarrow> bool \<times> 'w UdpTunnel" where
  "udp_check_alive env this =
     (case udp_call (u_poll_tick env) UPollTick this of
        (Pending, this) \<Rightarrow> (False, this)
      | (Ready _, this) \<Rightarrow>
          let (now, this) = udp_call (u_now env) UNow this;
              last_alive = u_duration_since env (u_last_keep_alive this) now
          in (last_alive > KEEP_ALIVE_TIMEOUT, this))"

definition udp_handle_message ::
  "'w udp_env \<Rightarrow> UdpMessage \<Rightarrow> 'w UdpTunnel \<Rightarrow> UdpReadState poll outcome \<times> 'w UdpTunnel" where
  "udp_handle_message env message this =
     (case message of
        Forward index bs \<Rightarrow>
          if unat index < length (u_pool this) then
            let handle = u_pool this ! unat index;
                (_, this) = udp_call (u_handle_send env handle bs) (UHandleSend handle bs) this
            in (Ret (Ready UdpReadContinue), this)
          else (Ret (Ready UdpReadContinue), this)
      | KeepAlive \<Rightarrow>
          let (now, this) = udp_call (u_now env) UNow this;
              this = this\<lparr>u_last_keep_alive := now, u_write_state := UdpWrite (Some KeepAlive)\<rparr>
          in (case udp_poll_write_state env this of
                (Panic msg, this) \<Rightarrow> (Panic msg, this)
              | (Ret (Ready next_state), this) \<Rightarrow>
                  (Ret (Ready (if next_state = UdpStop then UdpReadStop else UdpReadContinue)),
                   this\<lparr>u_write_state := next_state\<rparr>)
              | (Ret Pending, this) \<Rightarrow> (Ret (Ready UdpReadContinue), this))
      | _ \<Rightarrow> (Ret (Ready UdpReadContinue), this))"

definition udp_poll_message ::
  "'w udp_env \<Rightarrow> 'w UdpTunnel \<Rightarrow> UdpReadState poll outcome \<times> 'w UdpTunnel" where
  "udp_poll_message env this =
     (case udp_call (u_poll_recv_ready env) UPollRecvReady this of
        (Pending, this) \<Rightarrow> (Ret Pending, this)
      | (Ready (Inl e), this) \<Rightarrow> (Ret (Ready UdpReadStop), this)
      | (Ready (Inr _), this) \<Rightarrow>
          (case udp_call (u_poll_recv env 65535) UPollRecv this of
             (Pending, this) \<Rightarrow> (Ret Pending, this)
           | (Ready (Inl e), this) \<Rightarrow> (Ret (Ready UdpReadStop), this)
           | (Ready (Inr buffer), this) \<Rightarrow>
               (case udp_call (\<lambda>w. (u_deserialize env buffer, w)) UDeserialize this of
                  (Inl e, this) \<Rightarrow> (Ret (Ready UdpReadStop), this)
                | (Inr message, this) \<Rightarrow> udp_handle_message env message this)))"

definition udp_poll_read_state ::
  "'w udp_env \<Rightarrow> 'w UdpTunnel \<Rightarrow> UdpReadState poll outcome \<times> 'w UdpTunnel" where
  "udp_poll_read_state env this =
     (let (expired, this) = udp_check_alive env this
      in if expired then (Ret (Ready UdpReadStop), this) else udp_poll_message env this)"

section \<open>The future\<close>

definition udp_write_step :: "'w udp_env \<Rightarrow> 'w UdpTunnel \<Rightarrow> 'w UdpTunnel flow" where
  "udp_write_step env this =
     (case udp_poll_write_state env this of
        (Panic msg, this) \<Rightarrow> Abort msg this
      | (Ret (Ready next_state), this) \<Rightarrow>
          (let this = this\<lparr>u_write_state := next_state\<rparr>
           in if next_state = UdpStop then Return this else Again this)
      | (Ret Pending, this) \<Rightarrow> Break this)"

definition udp_read_step :: "'w udp_env \<Rightarrow> 'w UdpTunnel \<Rightarrow> 'w UdpTunnel flow" where
  "udp_read_step env this =
     (case udp_poll_read_state env this of
        (Panic msg, this) \<Rightarrow> Abort msg this
      | (Ret (Ready next_state), this) \<Rightarrow>
          (if next_state = UdpReadStop then Return this else Again this)
      | (Ret Pending, this) \<Rightarrow> Break this)"

definition udp_poll :: "'w udp_env \<Rightarrow> 'w UdpTunnel \<Rightarrow> (unit poll outcome \<times> 'w UdpTunnel) option" where
  "udp_poll env = poll_future (udp_write_step env) (udp_read_step env)"

text \<open>The tunnel \<^verbatim>\<open>create_tunnel\<close> starts, at time \<open>now\<close>.\<close>

definition new_udp_tunnel :: "u32 \<Rightarrow> UdpSocketHandle list \<Rightarrow> nat \<Rightarrow> 'w \<Rightarrow> 'w UdpTunnel" where
  "new_udp_tunnel tunnel_id handles now w =
     \<lparr>u_tunnel_id = tunnel_id, u_pool = handles, u_write_state = UdpRecv,
      u_last_keep_alive = now, u_world = w, u_trace = []\<rparr>"

text \<open>
  The life of a tunnel task under repeated polls. Between polls the world moves on by itself, but
  its \<open>clock\<close> does not go back.
\<close>

inductive udp_live :: "'w udp_env \<Rightarrow> ('w \<Rightarrow> nat) \<Rightarrow> 'w UdpTunnel \<Rightarrow> bool" for env clock where
  start: "length handles = UDP_SOCKET_POOL_SIZE \<Longrightarrow> now \<le> clock w \<Longrightarrow>
    udp_live env clock (new_udp_tunnel tunnel_id handles now w)"
| again: "udp_live env clock t \<Longrightarrow> udp_poll env t = Some (Ret Pending, t') \<Longrightarrow>
    clock (u_world t') \<le> clock w \<Longrightarrow> udp_live env clock (t'\<lparr>u_world := w\<rparr>)"

section \<open>What the trace says\<close>

fun u_taken :: "udp_event \<Rightarrow> UdpMessage list" where
  "u_taken (URxPollRecv (Ready (Some m))) = [m]"
| "u_taken _ = []"

fun u_sent :: "udp_event \<Rightarrow> UdpMessage list" where
  "u_sent (UPollSend m buffer r) = [m]"
| "u_sent _ = []"

text \<open>
  \<open>u_sent\<close> is every message handed to \<^verbatim>\<open>poll_send\<close>. Of these \<open>u_accepted\<close> are the ones the socket
  took, and \<open>u_refused\<close> the ones it answered pending or an error to.
\<close>

fun u_accepted :: "udp_event \<Rightarrow> UdpMessage list" where
  "u_accepted (UPollSend m buffer (Ready (Inr n))) = [m]"
| "u_accepted _ = []"

fun u_refused :: "udp_event \<Rightarrow> UdpMessage list" where
  "u_refused (UPollSend m buffer (Ready (Inl e))) = [m]"
| "u_refused (UPollSend m buffer Pending) = [m]"
| "u_refused _ = []"

fun u_received :: "udp_event \<Rightarrow> UdpMessage list" where
  "u_received (UDeserialize (Inr m)) = [m]"
| "u_received _ = []"

fun u_delivered :: "udp_event \<Rightarrow> (UdpSocketHandle \<times> bytes) list" where
  "u_delivered (UHandleSend h bs ok) = [(h, bs)]"
| "u_delivered _ = []"

fun u_held :: "UdpWriteState \<Rightarrow> UdpMessage list" where
  "u_held (UdpWrite (Some m)) = [m]"
| "u_held _ = []"

abbreviation u_data :: "UdpMessage list \<Rightarrow> UdpMessage list" where
  "u_data \<equiv> filter (\<lambda>m. m \<noteq> KeepAlive)"

fun u_route :: "UdpSocketHandle list \<Rightarrow> UdpMessage \<Rightarrow> (UdpSocketHandle \<times> bytes) list" where
  "u_route handles (Forward index bs) =
     (if unat index < length handles then [(handles ! unat index, bs)] else [])"
| "u_route handles _ = []"

fun is_URxPollRecv :: "udp_event \<Rightarrow> bool" where
  "is_URxPollRecv (URxPollRecv r) = True"
| "is_URxPollRecv _ = False"

fun is_u_send :: "udp_event \<Rightarrow> bool" where
  "is_u_send (UPollSendReady r) = True"
| "is_u_send (UPollSend m buffer r) = True"
| "is_u_send _ = False"

fun is_u_recv :: "udp_event \<Rightarrow> bool" where
  "is_u_recv (UPollRecvReady r) = True"
| "is_u_recv (UPollRecv r) = True"
| "is_u_recv _ = False"

definition u_read_armed :: "udp_event list \<Rightarrow> bool" where
  "u_read_armed tr \<longleftrightarrow>
     last_of is_u_recv tr = Some (UPollRecvReady Pending) \<or> last_of is_u_recv tr = Some (UPollRecv Pending)"

fun u_pending :: "udp_event \<Rightarrow> bool" where
  "u_pending (URxPollRecv Pending) = True"
| "u_pending (UPollSendReady Pending) = True"
| "u_pending (UPollSend m buffer Pending) = True"
| "u_pending _ = False"

text \<open>
  The write half waits for the channel when it holds no message, and for the socket, by
  \<^verbatim>\<open>poll_send_ready\<close> or \<^verbatim>\<open>poll_send\<close>, when it is writing.
\<close>

fun u_write_armed :: "UdpWriteState \<Rightarrow> udp_event list \<Rightarrow> bool" where
  "u_write_armed UdpRecv tr = (case last_of is_URxPollRecv tr of None \<Rightarrow> False | Some e \<Rightarrow> u_pending e)"
| "u_write_armed (UdpWrite m) tr = (case last_of is_u_send tr of None \<Rightarrow> False | Some e \<Rightarrow> u_pending e)"
| "u_write_armed UdpStop tr = False"

text \<open>
  A keep-alive has displaced a message: the channel's last answer was a message, not pending, and
  a keep-alive has arrived since.
\<close>

fun is_rx_or_keep_alive :: "udp_event \<Rightarrow> bool" where
  "is_rx_or_keep_alive (URxPollRecv r) = True"
| "is_rx_or_keep_alive (UDeserialize (Inr KeepAlive)) = True"
| "is_rx_or_keep_alive _ = False"

fun is_rx_message :: "udp_event \<Rightarrow> bool" where
  "is_rx_message (URxPollRecv (Ready (Some m))) = True"
| "is_rx_message _ = False"

definition u_displaced :: "udp_event list \<Rightarrow> bool" where
  "u_displaced tr \<longleftrightarrow>
     (case last_of is_URxPollRecv tr of None \<Rightarrow> False | Some e \<Rightarrow> is_rx_message e) \<and>
     last_of is_rx_or_keep_alive tr = Some (UDeserialize (Inr KeepAlive))"

section \<open>Invariants\<close>

text \<open>
  What the socket accepts is a subsequence of what was taken from the sockets; what is missing is
  paid for by refused sends, and by keep-alives received, which overwrite the write state.
\<close>

definition u_out_subseq :: "UdpMessage list \<Rightarrow> udp_event list \<Rightarrow> bool" where
  "u_out_subseq held tr \<longleftrightarrow>
     subseq (u_data (over_trace u_accepted tr) @ u_data held) (u_data (over_trace u_taken tr))"

definition u_out_loss :: "UdpMessage list \<Rightarrow> udp_event list \<Rightarrow> bool" where
  "u_out_loss held tr \<longleftrightarrow>
     length (u_data (over_trace u_taken tr)) \<le>
       length (u_data (over_trace u_accepted tr)) + length (u_data held) +
       count_list (over_trace u_received tr) KeepAlive + length (u_data (over_trace u_refused tr))"

definition u_in_routed :: "UdpSocketHandle list \<Rightarrow> udp_event list \<Rightarrow> bool" where
  "u_in_routed handles tr \<longleftrightarrow>
     over_trace u_delivered tr = concat (map (u_route handles) (over_trace u_received tr))"

text \<open>Some send was answered pending.\<close>

definition u_pended :: "udp_event list \<Rightarrow> bool" where
  "u_pended tr \<longleftrightarrow> (\<exists>m buffer. UPollSend m buffer Pending \<in> set tr)"

text \<open>What a panic says of the trace.\<close>

definition u_panicked :: "string \<Rightarrow> udp_event list \<Rightarrow> bool" where
  "u_panicked msg tr \<longleftrightarrow>
     msg = ''Message encoder errored'' \<and> (\<exists>tr0 m buffer e. tr = tr0 @ [UPollSend m buffer (Ready (Inl e))]) \<or>
     msg = ''Unexpected write state without message'' \<and> u_pended tr"

text \<open>The channel's last answer was pending or a message.\<close>

definition u_rx_waiting :: "udp_event list \<Rightarrow> bool" where
  "u_rx_waiting tr \<longleftrightarrow>
     (case last_of is_URxPollRecv tr of None \<Rightarrow> False | Some e \<Rightarrow> u_pending e \<or> is_rx_message e)"

lemmas u_trace_defs = u_out_subseq_def u_out_loss_def u_in_routed_def

text \<open>A write state without a message is what a send answered pending leaves.\<close>

definition udp_inv :: "'w UdpTunnel \<Rightarrow> bool" where
  "udp_inv this \<longleftrightarrow>
     length (u_pool this) = UDP_SOCKET_POOL_SIZE \<and> u_write_state this \<noteq> UdpStop \<and>
     (u_write_state this = UdpWrite None \<longrightarrow> u_pended (u_trace this)) \<and>
     (u_write_state this \<noteq> UdpRecv \<longrightarrow> u_rx_waiting (u_trace this)) \<and>
     u_out_subseq (u_held (u_write_state this)) (u_trace this) \<and>
     u_out_loss (u_held (u_write_state this)) (u_trace this) \<and>
     u_in_routed (u_pool this) (u_trace this)"

text \<open>Between the loops the write half waits to be woken, but for a displaced message.\<close>

definition u_wake :: "UdpWriteState \<Rightarrow> udp_event list \<Rightarrow> bool" where
  "u_wake st tr \<longleftrightarrow> u_write_armed st tr \<or> st = UdpRecv \<and> u_displaced tr"

definition udp_mid :: "'w UdpTunnel \<Rightarrow> bool" where
  "udp_mid this \<longleftrightarrow>
     udp_inv this \<and> u_rx_waiting (u_trace this) \<and> u_wake (u_write_state this) (u_trace this)"

definition udp_post :: "'w UdpTunnel \<Rightarrow> bool" where
  "udp_post this \<longleftrightarrow> udp_mid this \<and> u_read_armed (u_trace this)"

definition udp_fin :: "'w UdpTunnel \<Rightarrow> bool" where
  "udp_fin this \<longleftrightarrow>
     (\<exists>lost. length lost \<le> 1 \<and> u_out_subseq lost (u_trace this) \<and> u_out_loss lost (u_trace this)) \<and>
     u_in_routed (u_pool this) (u_trace this)"

definition udp_pnc :: "string \<Rightarrow> 'w UdpTunnel \<Rightarrow> bool" where
  "udp_pnc msg this \<longleftrightarrow> udp_fin this \<and> u_panicked msg (u_trace this)"

text \<open>How the trace predicates change with each event.\<close>

fun u_quiet :: "udp_event \<Rightarrow> bool" where
  "u_quiet (URxPollRecv (Ready (Some m))) = False"
| "u_quiet (UPollSend m buffer r) = False"
| "u_quiet (UDeserialize (Inr m)) = False"
| "u_quiet (UHandleSend h bs ok) = False"
| "u_quiet _ = True"

lemma u_quiet_events:
  "u_quiet e \<Longrightarrow> u_taken e = [] \<and> u_accepted e = [] \<and> u_refused e = [] \<and> u_received e = [] \<and> u_delivered e = []"
  by (cases e rule: u_quiet.cases) simp_all

lemma u_trace_quiet [simp]:
  assumes "u_quiet e"
  shows "u_out_subseq held (tr @ e # es) = u_out_subseq held (tr @ es)"
    and "u_out_loss held (tr @ e # es) = u_out_loss held (tr @ es)"
    and "u_in_routed handles (tr @ e # es) = u_in_routed handles (tr @ es)"
    and "u_pended (tr @ e # es) = u_pended (tr @ es)"
  using u_quiet_events [OF assms] assms by (auto simp: u_trace_defs u_pended_def)

lemma u_trace_quiet_later [simp]:
  assumes "u_quiet e"
  shows "u_out_subseq held (tr @ d # e # es) = u_out_subseq held (tr @ d # es)"
    and "u_out_loss held (tr @ d # e # es) = u_out_loss held (tr @ d # es)"
    and "u_in_routed handles (tr @ d # e # es) = u_in_routed handles (tr @ d # es)"
  using u_quiet_events [OF assms] by (simp_all add: u_trace_defs)

lemma u_trace_taken [simp]:
  "u_out_subseq [m] (tr @ [URxPollRecv (Ready (Some m))]) = u_out_subseq [] tr"
  "u_out_loss [m] (tr @ [URxPollRecv (Ready (Some m))]) = u_out_loss [] tr"
  "u_in_routed handles (tr @ [URxPollRecv (Ready (Some m))]) = u_in_routed handles tr"
  by (auto simp: u_trace_defs)

lemma u_out_subseq_drop:
  assumes "u_out_subseq held tr"
  shows "u_out_subseq [] tr"
proof -
  let ?sent = "u_data (over_trace u_accepted tr)"
  have "subseq ?sent (?sent @ u_data held)"
    by (rule prefix_imp_subseq) simp
  with assms show ?thesis
    unfolding u_out_subseq_def by (auto intro: subseq_order.trans)
qed

text \<open>A send, accepted or not, settles the message that was held.\<close>

lemma u_send_subseq [simp]:
  assumes "u_out_subseq [m] tr"
  shows "u_out_subseq [] (tr @ [UPollSend m buffer r])"
proof (cases r)
  case (Ready x)
  with assms u_out_subseq_drop [OF assms] show ?thesis
    by (cases x) (simp_all add: u_out_subseq_def split: if_splits)
next
  case Pending
  with u_out_subseq_drop [OF assms] show ?thesis by (simp add: u_out_subseq_def)
qed

lemma u_send_loss [simp]:
  "u_out_loss [m] tr \<Longrightarrow> u_out_loss [] (tr @ [UPollSend m buffer r])"
  by (cases r; cases "case r of Ready x \<Rightarrow> x | Pending \<Rightarrow> Inr 0") (simp_all add: u_out_loss_def)

lemma u_send_routed [simp]:
  "u_in_routed handles (tr @ UPollSend m buffer r # es) = u_in_routed handles (tr @ es)"
  by (simp add: u_in_routed_def)

lemma u_send_later [simp]:
  "u_out_subseq [m] (tr @ [d]) \<Longrightarrow> u_out_subseq [] (tr @ [d, UPollSend m buffer r])"
  "u_out_loss [m] (tr @ [d]) \<Longrightarrow> u_out_loss [] (tr @ [d, UPollSend m buffer r])"
  "u_in_routed handles (tr @ d # UPollSend m buffer r # es) = u_in_routed handles (tr @ d # es)"
  using u_send_subseq [of m "tr @ [d]"] u_send_loss [of m "tr @ [d]"] u_send_routed [of handles "tr @ [d]"]
  by simp_all

lemma u_pended_simps [simp]:
  "u_pended (tr @ UPollSend m buffer Pending # es)"
  "u_pended (tr @ d # UPollSend m buffer Pending # es)"
  "u_pended (tr @ d # e # f # UPollSend m buffer Pending # es)"
  "u_pended tr \<Longrightarrow> u_pended (tr @ es)"
  by (auto simp: u_pended_def)

lemma u_panicked_simps [simp]:
  "u_panicked ''Message encoder errored'' (tr @ [d, UPollSend m buffer (Ready (Inl e))])"
  "u_panicked ''Message encoder errored'' (tr @ [d, d', d'', UPollSend m buffer (Ready (Inl e))])"
  "u_panicked ''Unexpected write state without message'' tr = u_pended tr"
  by (auto simp: u_panicked_def intro: exI [of _ "tr @ [d]"] exI [of _ "tr @ [d, d', d'']"])

lemma u_panicked_refused: "u_panicked msg tr \<Longrightarrow> over_trace u_refused tr \<noteq> []"
  unfolding u_panicked_def u_pended_def over_trace_def by force

lemma u_trace_received [simp]:
  "u_out_subseq held (tr @ UDeserialize (Inr m) # es) = u_out_subseq held (tr @ es)"
  "u_out_loss held tr \<Longrightarrow> u_out_loss held (tr @ [UDeserialize (Inr m)])"
  "u_route handles m = [] \<Longrightarrow>
   u_in_routed handles (tr @ UDeserialize (Inr m) # es) = u_in_routed handles (tr @ es)"
  by (auto simp: u_trace_defs)

lemma u_trace_delivered [simp]:
  "u_out_subseq held (tr @ [UHandleSend h bs ok]) = u_out_subseq held tr"
  "u_out_loss held tr \<Longrightarrow> u_out_loss held (tr @ [UDeserialize (Inr m), UHandleSend h bs ok])"
  "u_route handles m = [(h, bs)] \<Longrightarrow>
   u_in_routed handles (tr @ [UDeserialize (Inr m), UHandleSend h bs ok]) = u_in_routed handles tr"
  by (auto simp: u_trace_defs)

lemma u_trace_keep_alive [simp]:
  "u_out_subseq [KeepAlive] tr = u_out_subseq [] tr"
  "u_out_loss [KeepAlive] tr = u_out_loss [] tr"
  by (simp_all add: u_trace_defs)

lemma u_out_loss_keep_alive:
  "u_out_loss (u_held st) tr \<Longrightarrow> u_out_loss [] (tr @ [UDeserialize (Inr KeepAlive)])"
  by (cases st rule: u_held.cases) (auto simp: u_trace_defs split: if_splits)

text \<open>The waiting predicates look at the last event of a kind only.\<close>

fun u_aside :: "udp_event \<Rightarrow> bool" where
  "u_aside (URxPollRecv r) = False"
| "u_aside (UPollSendReady r) = False"
| "u_aside (UPollSend m buffer r) = False"
| "u_aside (UDeserialize (Inr KeepAlive)) = False"
| "u_aside _ = True"

lemma u_wake_aside [simp]:
  assumes "u_aside e"
  shows "u_wake st (tr @ [e]) = u_wake st tr"
proof -
  from assms have "\<not> is_URxPollRecv e \<and> \<not> is_u_send e \<and> \<not> is_rx_or_keep_alive e"
    by (cases e rule: u_aside.cases) simp_all
  then show ?thesis by (cases st) (simp_all add: u_wake_def u_displaced_def)
qed

lemma u_wake_delivered [simp]:
  "u_wake st (tr @ [UDeserialize (Inr (Forward i bs')), UHandleSend h bs ok]) = u_wake st tr"
  by (cases st) (simp_all add: u_wake_def u_displaced_def)

lemma u_rx_waiting_simps [simp]:
  "u_rx_waiting (tr @ [URxPollRecv (Ready (Some m))])"
  "u_rx_waiting (tr @ [URxPollRecv Pending])"
  "\<not> is_URxPollRecv e \<Longrightarrow> u_rx_waiting (tr @ e # es) = u_rx_waiting (tr @ es)"
  "\<not> is_URxPollRecv e \<Longrightarrow> u_rx_waiting (tr @ d # e # es) = u_rx_waiting (tr @ d # es)"
  by (auto simp: u_rx_waiting_def split: option.splits)

lemma u_wake_pending [simp]:
  "u_wake UdpRecv (tr @ [URxPollRecv Pending])"
  "u_wake (UdpWrite x) (tr @ [UPollSendReady Pending])"
  "u_wake (UdpWrite x) (tr @ [d, e, UPollSendReady Pending])"
  "u_wake (UdpWrite x) (tr @ [d, UPollSend m buffer Pending])"
  "u_wake (UdpWrite x) (tr @ [d, e, f, UPollSend m buffer Pending])"
  by (simp_all add: u_wake_def)

text \<open>After a keep-alive the empty write half waits for the channel, or has displaced a message.\<close>

lemma u_wake_keep_alive [simp]:
  "u_rx_waiting tr \<Longrightarrow>
   u_wake UdpRecv (tr @ [UDeserialize (Inr KeepAlive), UNow n, UPollSendReady q, UPollSend m buffer r])"
  by (auto simp: u_wake_def u_displaced_def u_rx_waiting_def split: option.splits)

lemma udp_finI:
  "u_out_subseq held (u_trace t) \<Longrightarrow> u_out_loss held (u_trace t) \<Longrightarrow> length held \<le> 1 \<Longrightarrow>
   u_in_routed (u_pool t) (u_trace t) \<Longrightarrow> udp_fin t"
  unfolding udp_fin_def by blast

lemma u_held_length: "length (u_held st) \<le> 1"
  by (cases st rule: u_held.cases) auto

lemma udp_inv_fin: "udp_inv t \<Longrightarrow> udp_fin t"
  unfolding udp_inv_def using udp_finI u_held_length by blast

lemma udp_mid_fin: "udp_mid t \<Longrightarrow> udp_fin t"
  by (simp add: udp_mid_def udp_inv_fin)

section \<open>The loops keep the invariant\<close>

lemma udp_write_Some_cases:
  assumes "u_write_state t = UdpWrite (Some m)" and "udp_poll_write_state env t = (r, t')"
  obtains w where "r = Ret Pending"
      "t' = t\<lparr>u_world := w, u_trace := u_trace t @ [UPollSendReady Pending]\<rparr>"
  | e w where "r = Ret (Ready UdpStop)"
      "t' = t\<lparr>u_world := w, u_trace := u_trace t @ [UPollSendReady (Ready (Inl e))]\<rparr>"
  | n buffer w where "r = Ret (Ready UdpRecv)"
      "t' = t\<lparr>u_write_state := UdpWrite None, u_world := w, u_trace := u_trace t @
        [UPollSendReady (Ready (Inr ())), UPollSend m buffer (Ready (Inr n))]\<rparr>"
  | buffer w where "r = Ret Pending"
      "t' = t\<lparr>u_write_state := UdpWrite None, u_world := w, u_trace := u_trace t @
        [UPollSendReady (Ready (Inr ())), UPollSend m buffer Pending]\<rparr>"
  | e buffer w where "r = Panic ''Message encoder errored''"
      "t' = t\<lparr>u_write_state := UdpWrite None, u_world := w, u_trace := u_trace t @
        [UPollSendReady (Ready (Inr ())), UPollSend m buffer (Ready (Inl e))]\<rparr>"
proof -
  obtain q w1 where ready: "u_poll_send_ready env (u_world t) = (q, w1)" by (meson surj_pair)
  obtain q2 w2 where send: "u_poll_send env (u_serialize env (u_tunnel_id t) m) w1 = (q2, w2)"
    by (meson surj_pair)
  note eq = assms ready send
  consider "q = Pending" | e where "q = Ready (Inl e)" | u where "q = Ready (Inr u)"
    by (metis poll.exhaust sum.exhaust)
  then show thesis
  proof cases
    case 1
    with eq that(1) show thesis by (auto simp: udp_poll_write_state_def udp_call_def)
  next
    case 2
    with eq that(2) show thesis by (auto simp: udp_poll_write_state_def udp_call_def)
  next
    case 3
    consider "q2 = Pending" | e where "q2 = Ready (Inl e)" | n where "q2 = Ready (Inr n)"
      by (metis poll.exhaust sum.exhaust)
    then show thesis
      by cases (use 3 eq that(3-5) in \<open>auto simp: udp_poll_write_state_def udp_call_def Let_def\<close>)
  qed
qed

lemma udp_write_None:
  assumes "udp_inv t" and "u_write_state t = UdpWrite None"
  shows "flow_sat udp_inv udp_mid udp_fin udp_pnc (udp_write_step env t)"
  using assms
  by (auto simp: udp_write_step_def udp_poll_write_state_def udp_call_def udp_inv_def udp_mid_def
      udp_pnc_def udp_finI [of "[]"] split: prod.splits poll.splits sum.splits)

lemma udp_write_step_ok:
  assumes "udp_inv t"
  shows "flow_sat udp_inv udp_mid udp_fin udp_pnc (udp_write_step env t)"
proof (cases "u_write_state t")
  case UdpRecv
  with assms show ?thesis
    by (auto simp: udp_write_step_def udp_poll_write_state_def udp_call_def udp_inv_def
      udp_mid_def udp_finI [of "[]"] split: prod.splits poll.splits option.splits)
next
  case (UdpWrite x)
  show ?thesis
  proof (cases x)
    case None
    with assms UdpWrite show ?thesis by (simp add: udp_write_None)
  next
    case (Some m)
    with UdpWrite have m: "u_write_state t = UdpWrite (Some m)" by simp
    obtain r t' where call: "udp_poll_write_state env t = (r, t')"
      by (meson surj_pair)
    from m call show ?thesis
      by (cases rule: udp_write_Some_cases)
        (use assms m call u_out_subseq_drop [of "[m]"] in
          \<open>auto simp: udp_write_step_def udp_inv_def udp_mid_def udp_pnc_def udp_finI [of "[m]"] udp_finI [of "[]"]\<close>)
  qed
next
  case UdpStop
  with assms show ?thesis by (simp add: udp_inv_def)
qed

text \<open>The calls of the read half before a message is there change nothing but the trace.\<close>

fun u_passive :: "udp_event \<Rightarrow> bool" where
  "u_passive (UPollTick r) = True"
| "u_passive (UNow n) = True"
| "u_passive (UPollRecvReady r) = True"
| "u_passive (UPollRecv r) = True"
| "u_passive (UDeserialize (Inl e)) = True"
| "u_passive _ = False"

lemma u_passive_events: "u_passive e \<Longrightarrow> u_quiet e \<and> u_aside e \<and> \<not> is_URxPollRecv e"
  by (cases e rule: u_passive.cases) simp_all

lemma udp_mid_passive:
  "list_all u_passive es \<Longrightarrow>
   udp_mid (t\<lparr>u_world := w, u_trace := u_trace t @ es\<rparr>) = udp_mid t"
proof (induction es rule: rev_induct)
  case Nil
  show ?case by (simp add: udp_mid_def udp_inv_def)
next
  case (snoc e es)
  then show ?case
    using u_passive_events [of e] by (simp add: udp_mid_def udp_inv_def flip: append_assoc)
qed

lemma udp_check_alive_passive:
  assumes "udp_check_alive env t = (expired, t')"
  shows "\<exists>w es. t' = t\<lparr>u_world := w, u_trace := u_trace t @ es\<rparr> \<and> list_all u_passive es"
proof -
  obtain r w where tick: "u_poll_tick env (u_world t) = (r, w)" by (meson surj_pair)
  show ?thesis
  proof (cases r)
    case (Ready x)
    obtain n w2 where "u_now env w = (n, w2)" by (meson surj_pair)
    with assms tick Ready
    have "t' = t\<lparr>u_world := w2, u_trace := u_trace t @ [UPollTick (Ready x), UNow n]\<rparr>"
      by (auto simp: udp_check_alive_def udp_call_def Let_def)
    then show ?thesis by (intro exI conjI) (assumption, simp)
  next
    case Pending
    with assms tick have "t' = t\<lparr>u_world := w, u_trace := u_trace t @ [UPollTick Pending]\<rparr>"
      by (auto simp: udp_check_alive_def udp_call_def)
    then show ?thesis by (intro exI conjI) (assumption, simp)
  qed
qed

lemma udp_mid_held:
  assumes "udp_mid t"
  shows "u_out_subseq [] (u_trace t)" and "u_out_loss (u_held (u_write_state t)) (u_trace t)"
    and "u_in_routed (u_pool t) (u_trace t)" and "u_rx_waiting (u_trace t)"
    and "length (u_pool t) = UDP_SOCKET_POOL_SIZE"
  using assms u_out_subseq_drop by (auto simp: udp_mid_def udp_inv_def)

text \<open>What a turn of the read half establishes, by its answer.\<close>

definition udp_read_sat :: "UdpReadState poll outcome \<Rightarrow> 'w UdpTunnel \<Rightarrow> bool" where
  "udp_read_sat r this \<longleftrightarrow>
     (case r of Panic msg \<Rightarrow> udp_pnc msg this | Ret Pending \<Rightarrow> udp_post this
      | Ret (Ready UdpReadContinue) \<Rightarrow> udp_mid this | Ret (Ready UdpReadStop) \<Rightarrow> udp_fin this)"

lemma udp_read_sat_simps [simp]:
  "udp_read_sat (Panic msg) this = udp_pnc msg this"
  "udp_read_sat (Ret Pending) this = udp_post this"
  "udp_read_sat (Ret (Ready UdpReadContinue)) this = udp_mid this"
  "udp_read_sat (Ret (Ready UdpReadStop)) this = udp_fin this"
  by (simp_all add: udp_read_sat_def)

lemma udp_keep_alive_ok:
  assumes "udp_mid t"
    and "udp_handle_message env KeepAlive
      (t\<lparr>u_world := w, u_trace := u_trace t @ [UDeserialize (Inr KeepAlive)]\<rparr>) = (r, t')"
  shows "udp_read_sat r t'"
proof -
  note mid = udp_mid_held [OF assms(1)]
  obtain n w1 where now: "u_now env w = (n, w1)" by (meson surj_pair)
  let ?t = "t\<lparr>u_last_keep_alive := n, u_write_state := UdpWrite (Some KeepAlive), u_world := w1,
    u_trace := u_trace t @ [UDeserialize (Inr KeepAlive), UNow n]\<rparr>"
  have upd: "t\<lparr>u_world := w1, u_trace := u_trace t @ [UDeserialize (Inr KeepAlive), UNow n],
      u_last_keep_alive := n, u_write_state := UdpWrite (Some KeepAlive)\<rparr> = ?t"
    by (cases t) simp
  obtain q t1 where call: "udp_poll_write_state env ?t = (q, t1)"
    by (meson surj_pair)
  have step: "(r, t') = (case (q, t1) of
      (Panic msg, this) \<Rightarrow> (Panic msg, this)
    | (Ret (Ready next_state), this) \<Rightarrow>
        (Ret (Ready (if next_state = UdpStop then UdpReadStop else UdpReadContinue)),
         this\<lparr>u_write_state := next_state\<rparr>)
    | (Ret Pending, this) \<Rightarrow> (Ret (Ready UdpReadContinue), this))"
    using assms(2) by (simp add: udp_handle_message_def udp_call_def now upd call)
  have loss: "u_out_loss [] (u_trace t @ [UDeserialize (Inr KeepAlive)])"
    using mid(2) by (rule u_out_loss_keep_alive)
  have sent: "u_out_subseq [] (u_trace t @ [UDeserialize (Inr KeepAlive), UPollSend KeepAlive b x])"
    "u_out_loss [] (u_trace t @ [UDeserialize (Inr KeepAlive), UPollSend KeepAlive b x])" for b x
    using mid(1) loss by (auto intro: u_send_later)
  have "u_write_state ?t = UdpWrite (Some KeepAlive)" by simp
  from this call show ?thesis
    by (cases rule: udp_write_Some_cases)
      (use step mid loss sent in \<open>auto simp: udp_mid_def udp_inv_def udp_pnc_def udp_finI [of "[]"]\<close>)
qed

lemma udp_handle_message_ok:
  assumes "udp_mid t"
    and "udp_handle_message env m
      (t\<lparr>u_world := w, u_trace := u_trace t @ [UDeserialize (Inr m)]\<rparr>) = (r, t')"
  shows "udp_read_sat r t'"
proof (cases m)
  case (Forward i bs)
  with assms show ?thesis
    by (auto simp: udp_handle_message_def udp_call_def Let_def udp_mid_def udp_inv_def
      split: if_splits prod.splits)
next
  case KeepAlive
  with assms show ?thesis by (simp add: udp_keep_alive_ok)
qed (use assms in \<open>auto simp: udp_handle_message_def udp_mid_def udp_inv_def\<close>)

lemma udp_poll_message_ok:
  assumes "udp_mid t" and "udp_poll_message env t = (r, t')"
  shows "udp_read_sat r t'"
proof -
  have psv: "udp_mid (t\<lparr>u_world := w, u_trace := u_trace t @ es\<rparr>)"
    if "list_all u_passive es" for w es
    using assms(1) that by (simp add: udp_mid_passive)
  obtain q1 w1 where ready: "u_poll_recv_ready env (u_world t) = (q1, w1)" by (meson surj_pair)
  obtain q2 w2 where recv: "u_poll_recv env 65535 w1 = (q2, w2)" by (meson surj_pair)
  show ?thesis
  proof (cases "\<exists>u buffer m. q1 = Ready (Inr u) \<and> q2 = Ready (Inr buffer) \<and> u_deserialize env buffer = Inr m")
    case True
    then obtain u buffer m where q: "q1 = Ready (Inr u)" "q2 = Ready (Inr buffer)"
      "u_deserialize env buffer = Inr m" by blast
    let ?t = "t\<lparr>u_world := w2, u_trace := u_trace t @ [UPollRecvReady q1, UPollRecv q2]\<rparr>"
    have mid: "udp_mid ?t" by (simp add: psv)
    have "udp_handle_message env m
        (?t\<lparr>u_world := w2, u_trace := u_trace ?t @ [UDeserialize (Inr m)]\<rparr>) = (r, t')"
      using assms(2) q ready recv by (simp add: udp_poll_message_def udp_call_def)
    from udp_handle_message_ok [OF mid this] show ?thesis by blast
  next
    case False
    then show ?thesis
      using assms(2) ready recv
        psv [of "[UPollRecvReady q1]" w1] psv [of "[UPollRecvReady q1, UPollRecv q2]" w2]
        udp_mid_fin [OF psv [of "[UPollRecvReady q1]" w1]]
        udp_mid_fin [OF psv [of "[UPollRecvReady q1, UPollRecv q2]" w2]]
        udp_mid_fin [OF psv [of "[UPollRecvReady q1, UPollRecv q2, UDeserialize (Inl e)]" w2 for e]]
      by (auto simp: udp_poll_message_def udp_call_def udp_post_def u_read_armed_def
          split: poll.splits sum.splits)
  qed
qed

lemma udp_read_step_ok:
  assumes "udp_mid t"
  shows "flow_sat udp_mid udp_post udp_fin udp_pnc (udp_read_step env t)"
proof -
  obtain expired t1 where alive: "udp_check_alive env t = (expired, t1)" by (meson surj_pair)
  obtain r t' where poll: "udp_poll_message env t1 = (r, t')" by (meson surj_pair)
  have mid: "udp_mid t1"
    using udp_check_alive_passive [OF alive] assms udp_mid_passive by metis
  then have "udp_fin t1" by (rule udp_mid_fin)
  with udp_poll_message_ok [OF mid poll] alive poll show ?thesis
    by (auto simp: udp_read_step_def udp_poll_read_state_def udp_read_sat_def
        split: outcome.splits poll.splits UdpReadState.splits)
qed

interpretation udp: poll_outcomes "udp_write_step env" "udp_read_step env" udp_inv udp_mid
    udp_post udp_fin udp_pnc
  for env :: "'w udp_env"
  by unfold_locales (simp_all add: udp_write_step_ok udp_read_step_ok)

section \<open>The keep-alive clock\<close>

text \<open>
  The clock of the environment: reading it gives its time, and no call turns it back. By its
  documentation \<^verbatim>\<open>duration_since\<close> is zero when the argument is later.
\<close>

definition clocked :: "'w udp_env \<Rightarrow> ('w \<Rightarrow> nat) \<Rightarrow> bool" where
  "clocked env clock \<longleftrightarrow>
     (\<forall>w. clock w \<le> fst (u_now env w) \<and> fst (u_now env w) \<le> clock (snd (u_now env w))) \<and>
     (\<forall>w. clock w \<le> clock (snd (u_rx_poll_recv env w))) \<and>
     (\<forall>w. clock w \<le> clock (snd (u_poll_send_ready env w))) \<and>
     (\<forall>bs w. clock w \<le> clock (snd (u_poll_send env bs w))) \<and>
     (\<forall>w. clock w \<le> clock (snd (u_poll_tick env w))) \<and>
     (\<forall>w. clock w \<le> clock (snd (u_poll_recv_ready env w))) \<and>
     (\<forall>k w. clock w \<le> clock (snd (u_poll_recv env k w))) \<and>
     (\<forall>h bs w. clock w \<le> clock (snd (u_handle_send env h bs w)))"

definition saturating :: "'w udp_env \<Rightarrow> bool" where
  "saturating env \<longleftrightarrow> (\<forall>a b. a \<le> b \<longrightarrow> u_duration_since env a b = 0)"

lemma clockedD:
  assumes "clocked env clock"
  shows "u_rx_poll_recv env w = (r1, w') \<Longrightarrow> clock w \<le> clock w'"
    and "u_poll_send_ready env w = (r2, w') \<Longrightarrow> clock w \<le> clock w'"
    and "u_poll_send env bs w = (r3, w') \<Longrightarrow> clock w \<le> clock w'"
    and "u_poll_tick env w = (r4, w') \<Longrightarrow> clock w \<le> clock w'"
    and "u_poll_recv_ready env w = (r2, w') \<Longrightarrow> clock w \<le> clock w'"
    and "u_poll_recv env k w = (r5, w') \<Longrightarrow> clock w \<le> clock w'"
    and "u_handle_send env h bs w = (ok, w') \<Longrightarrow> clock w \<le> clock w'"
    and "u_now env w = (n, w') \<Longrightarrow> clock w \<le> n \<and> n \<le> clock w'"
  using assms unfolding clocked_def by (metis fst_conv snd_conv)+

text \<open>The answers after which a tunnel stops.\<close>

fun stop_event :: "udp_event \<Rightarrow> bool" where
  "stop_event (URxPollRecv (Ready None)) = True"
| "stop_event (UPollSendReady (Ready (Inl e))) = True"
| "stop_event (UPollRecvReady (Ready (Inl e))) = True"
| "stop_event (UPollRecv (Ready (Inl e))) = True"
| "stop_event (UDeserialize (Inl e)) = True"
| "stop_event _ = False"

definition u_alive :: "('w \<Rightarrow> nat) \<Rightarrow> 'w UdpTunnel \<Rightarrow> bool" where
  "u_alive clock t \<longleftrightarrow> u_last_keep_alive t \<le> clock (u_world t)"

definition u_stopped :: "'w UdpTunnel \<Rightarrow> bool" where
  "u_stopped t \<longleftrightarrow> u_trace t \<noteq> [] \<and> stop_event (last (u_trace t))"

lemma udp_poll_write_clock:
  assumes "clocked env clock" and "udp_poll_write_state env t = (r, t')"
  shows "clock (u_world t) \<le> clock (u_world t') \<and> u_last_keep_alive t' = u_last_keep_alive t \<and>
    (r = Ret (Ready UdpStop) \<longrightarrow> u_stopped t')"
proof (cases "u_write_state t")
  case UdpRecv
  with assms(2) show ?thesis
    by (auto simp: udp_poll_write_state_def udp_call_def u_stopped_def
        dest: clockedD(1) [OF assms(1)] split: prod.splits poll.splits option.splits)
next
  case (UdpWrite x)
  obtain q w1 where ready: "u_poll_send_ready env (u_world t) = (q, w1)" by (meson surj_pair)
  note le1 = clockedD(2) [OF assms(1) ready]
  show ?thesis
  proof (cases "\<exists>u m. q = Ready (Inr u) \<and> x = Some m")
    case True
    then obtain m where q: "q = Ready (Inr ())" "x = Some m" by auto
    obtain q2 w2 where send: "u_poll_send env (u_serialize env (u_tunnel_id t) m) w1 = (q2, w2)"
      by (meson surj_pair)
    from le1 clockedD(3) [OF assms(1) send] UdpWrite assms(2) ready q send show ?thesis
      by (auto simp: udp_poll_write_state_def udp_call_def Let_def split: poll.splits sum.splits)
  next
    case False
    with UdpWrite assms(2) ready le1 show ?thesis
      by (auto simp: udp_poll_write_state_def udp_call_def u_stopped_def
          split: poll.splits sum.splits option.splits)
  qed
next
  case UdpStop
  with assms(2) show ?thesis by (auto simp: udp_poll_write_state_def)
qed

lemma udp_write_step_clock:
  assumes "clocked env clock" and "u_alive clock t"
  shows "flow_sat (u_alive clock) (u_alive clock) u_stopped (\<lambda>_ _. True) (udp_write_step env t)"
proof -
  obtain r t' where call: "udp_poll_write_state env t = (r, t')" by (meson surj_pair)
  from udp_poll_write_clock [OF assms(1) this] assms(2) call show ?thesis
    by (auto simp: udp_write_step_def u_alive_def u_stopped_def Let_def
        split: outcome.splits poll.splits)
qed

text \<open>
  The keep-alive check never finds the connection expired: the last keep-alive is never later
  than now, so the duration from now back to it is zero.
\<close>

lemma udp_check_alive_clock:
  assumes "clocked env clock" and "saturating env" and "u_alive clock t"
    and "udp_check_alive env t = (expired, t')"
  shows "\<not> expired \<and> u_alive clock t'"
proof -
  obtain r w1 where tick: "u_poll_tick env (u_world t) = (r, w1)" by (meson surj_pair)
  obtain n w2 where now: "u_now env w1 = (n, w2)" by (meson surj_pair)
  have "u_last_keep_alive t \<le> clock w1"
    using assms(3) clockedD(4) [OF assms(1) tick] by (simp add: u_alive_def)
  moreover have "clock w1 \<le> n" "n \<le> clock w2"
    using clockedD(8) [OF assms(1) now] by auto
  ultimately have "u_duration_since env (u_last_keep_alive t) n = 0"
    and "u_last_keep_alive t \<le> clock w1" and "u_last_keep_alive t \<le> clock w2"
    using assms(2) unfolding saturating_def by auto
  with assms(4) tick now show ?thesis
    by (cases r) (auto simp: udp_check_alive_def udp_call_def u_alive_def Let_def)
qed

lemma udp_handle_message_clock:
  assumes "clocked env clock" and "u_alive clock t" and "udp_handle_message env m t = (r, t')"
  shows "u_alive clock t' \<and> (r = Ret (Ready UdpReadStop) \<longrightarrow> u_stopped t') \<and> r \<noteq> Ret Pending"
proof (cases m)
  case (Forward i bs)
  with assms(2,3) show ?thesis
    by (auto simp: udp_handle_message_def udp_call_def Let_def u_alive_def
        dest: clockedD(7) [OF assms(1)] split: if_splits prod.splits)
next
  case KeepAlive
  obtain n w1 where now: "u_now env (u_world t) = (n, w1)" by (meson surj_pair)
  let ?t = "t\<lparr>u_world := w1, u_trace := u_trace t @ [UNow n],
      u_last_keep_alive := n, u_write_state := UdpWrite (Some KeepAlive)\<rparr>"
  obtain q t1 where call: "udp_poll_write_state env ?t = (q, t1)" by (meson surj_pair)
  from udp_poll_write_clock [OF assms(1) call] clockedD(8) [OF assms(1) now] KeepAlive assms(3) now call
  show ?thesis
    by (auto simp: udp_handle_message_def udp_call_def u_alive_def u_stopped_def
        split: outcome.splits poll.splits if_splits)
qed (use assms in \<open>auto simp: udp_handle_message_def\<close>)

lemma udp_poll_message_clock:
  assumes "clocked env clock" and "u_alive clock t" and "udp_poll_message env t = (r, t')"
  shows "u_alive clock t' \<and> (r = Ret (Ready UdpReadStop) \<longrightarrow> u_stopped t')"
proof -
  obtain q1 w1 where ready: "u_poll_recv_ready env (u_world t) = (q1, w1)" by (meson surj_pair)
  obtain q2 w2 where recv: "u_poll_recv env 65535 w1 = (q2, w2)" by (meson surj_pair)
  have le: "u_last_keep_alive t \<le> clock w1" "u_last_keep_alive t \<le> clock w2"
    using assms(2) clockedD(5) [OF assms(1) ready] clockedD(6) [OF assms(1) recv]
    by (simp_all add: u_alive_def)
  show ?thesis
  proof (cases "\<exists>u buffer m. q1 = Ready (Inr u) \<and> q2 = Ready (Inr buffer) \<and> u_deserialize env buffer = Inr m")
    case True
    then obtain u buffer m where q: "q1 = Ready (Inr u)" "q2 = Ready (Inr buffer)"
      "u_deserialize env buffer = Inr m" by blast
    have "udp_handle_message env m (t\<lparr>u_world := w2, u_trace := u_trace t @
        [UPollRecvReady q1, UPollRecv q2, UDeserialize (Inr m)]\<rparr>) = (r, t')"
      using assms(3) q ready recv by (simp add: udp_poll_message_def udp_call_def)
    from udp_handle_message_clock [OF assms(1) _ this] le show ?thesis
      by (simp add: u_alive_def)
  next
    case False
    with assms(3) ready recv le show ?thesis
      by (auto simp: udp_poll_message_def udp_call_def u_alive_def u_stopped_def
          split: poll.splits sum.splits)
  qed
qed

lemma udp_read_step_clock:
  assumes "clocked env clock" and "saturating env" and "u_alive clock t"
  shows "flow_sat (u_alive clock) (u_alive clock) u_stopped (\<lambda>_ _. True) (udp_read_step env t)"
proof -
  obtain expired t1 where alive: "udp_check_alive env t = (expired, t1)" by (meson surj_pair)
  obtain r t' where poll: "udp_poll_message env t1 = (r, t')" by (meson surj_pair)
  from udp_check_alive_clock [OF assms alive] have "\<not> expired" and t1: "u_alive clock t1" by auto
  with udp_poll_message_clock [OF assms(1) t1 poll] alive poll show ?thesis
    by (auto simp: udp_read_step_def udp_poll_read_state_def split: outcome.splits poll.splits)
qed

interpretation udp_clock: poll_outcomes "udp_write_step env" "udp_read_step env"
    "\<lambda>t. u_alive clock t \<and> clocked env clock \<and> saturating env"
    "\<lambda>t. u_alive clock t \<and> clocked env clock \<and> saturating env"
    "\<lambda>t. u_alive clock t \<and> clocked env clock \<and> saturating env" u_stopped "\<lambda>_ _. True"
  for env :: "'w udp_env" and clock :: "'w \<Rightarrow> nat"
  by unfold_locales (simp_all add: flow_sat_conj udp_write_step_clock udp_read_step_clock)

section \<open>Live tunnels\<close>

lemma udp_poll_result:
  assumes "udp_inv t" and "udp_poll env t = Some (r, t')"
  shows "r = Ret Pending \<and> udp_post t' \<or> r = Ret (Ready ()) \<and> udp_fin t' \<or>
    (\<exists>msg. r = Panic msg \<and> udp_pnc msg t')"
  using assms unfolding udp_poll_def by (rule udp.poll_sat)

lemma udp_inv_world [simp]: "udp_inv (t\<lparr>u_world := w\<rparr>) = udp_inv t"
  by (simp add: udp_inv_def)

lemma udp_live_inv: "udp_live env clock t \<Longrightarrow> udp_inv t"
proof (induction rule: udp_live.induct)
  case (start handles now w tunnel_id)
  then show ?case by (simp add: udp_inv_def new_udp_tunnel_def u_trace_defs)
next
  case (again t t' w)
  then show ?case
    using udp_poll_result by (fastforce simp: udp_post_def udp_mid_def)
qed

text \<open>However a poll of a live tunnel ends, what the trace says of the messages holds.\<close>

lemma udp_live_fin:
  assumes "udp_live env clock t" and "udp_poll env t = Some (r, t')"
  shows "udp_fin t'"
  using udp_poll_result [OF udp_live_inv [OF assms(1)] assms(2)]
  by (auto simp: udp_post_def udp_pnc_def udp_mid_fin)

lemma udp_clock_result:
  assumes "u_alive clock t" and "clocked env clock" and "saturating env"
    and "udp_poll env t = Some (r, t')"
  shows "r = Ret Pending \<and> u_alive clock t' \<or> r = Ret (Ready ()) \<and> u_stopped t' \<or> (\<exists>msg. r = Panic msg)"
  using udp_clock.poll_sat [of clock t env r t'] assms by (auto simp: udp_poll_def)

lemma udp_live_alive:
  "udp_live env clock t \<Longrightarrow> clocked env clock \<Longrightarrow> saturating env \<Longrightarrow> u_alive clock t"
proof (induction rule: udp_live.induct)
  case (start handles now w tunnel_id)
  then show ?case by (simp add: u_alive_def new_udp_tunnel_def)
next
  case (again t t' w)
  from udp_clock_result [OF again.IH [OF again.prems] again.prems again.hyps(2)] again.hyps(3)
  show ?case by (auto simp: u_alive_def)
qed

section \<open>Termination\<close>

text \<open>An environment that has only finitely many messages and datagrams ready.\<close>

definition udp_finite :: "'w udp_env \<Rightarrow> ('w \<Rightarrow> nat) \<Rightarrow> bool" where
  "udp_finite env fuel \<longleftrightarrow>
     (\<forall>w m. fst (u_rx_poll_recv env w) = Ready (Some m) \<longrightarrow> fuel (snd (u_rx_poll_recv env w)) < fuel w) \<and>
     (\<forall>w. fuel (snd (u_poll_send_ready env w)) \<le> fuel w) \<and>
     (\<forall>bs w. fuel (snd (u_poll_send env bs w)) \<le> fuel w) \<and>
     (\<forall>w. fuel (snd (u_poll_tick env w)) \<le> fuel w) \<and>
     (\<forall>w. fuel (snd (u_now env w)) \<le> fuel w) \<and>
     (\<forall>w. fuel (snd (u_poll_recv_ready env w)) \<le> fuel w) \<and>
     (\<forall>k w b. fst (u_poll_recv env k w) = Ready (Inr b) \<longrightarrow> fuel (snd (u_poll_recv env k w)) < fuel w) \<and>
     (\<forall>h bs w. fuel (snd (u_handle_send env h bs w)) \<le> fuel w)"

lemma udp_finiteD:
  assumes "udp_finite env fuel"
  shows "u_rx_poll_recv env w = (Ready (Some m), w') \<Longrightarrow> fuel w' < fuel w"
    and "u_poll_send_ready env w = (r2, w') \<Longrightarrow> fuel w' \<le> fuel w"
    and "u_poll_send env bs w = (r3, w') \<Longrightarrow> fuel w' \<le> fuel w"
    and "u_poll_tick env w = (r4, w') \<Longrightarrow> fuel w' \<le> fuel w"
    and "u_poll_recv_ready env w = (r2, w') \<Longrightarrow> fuel w' \<le> fuel w"
    and "u_poll_recv env k w = (Ready (Inr b), w') \<Longrightarrow> fuel w' < fuel w"
    and "u_handle_send env h bs w = (ok, w') \<Longrightarrow> fuel w' \<le> fuel w"
    and "u_now env w = (n, w') \<Longrightarrow> fuel w' \<le> fuel w"
  using assms unfolding udp_finite_def by (metis fst_conv snd_conv)+

definition udp_wmu :: "('w \<Rightarrow> nat) \<Rightarrow> 'w UdpTunnel \<Rightarrow> nat" where
  "udp_wmu fuel this = 2 * fuel (u_world this) + (if u_write_state this = UdpRecv then 0 else 1)"

lemma udp_poll_write_fuel:
  assumes "udp_finite env fuel" and "udp_poll_write_state env t = (r, t')" and "u_write_state t = UdpWrite x"
  shows "fuel (u_world t') \<le> fuel (u_world t) \<and> (\<forall>st. r = Ret (Ready st) \<longrightarrow> st = UdpRecv \<or> st = UdpStop)"
proof -
  obtain q w1 where ready: "u_poll_send_ready env (u_world t) = (q, w1)" by (meson surj_pair)
  note le1 = udp_finiteD(2) [OF assms(1) ready]
  show ?thesis
  proof (cases "\<exists>u m. q = Ready (Inr u) \<and> x = Some m")
    case True
    then obtain m where q: "q = Ready (Inr ())" "x = Some m" by auto
    obtain q2 w2 where send: "u_poll_send env (u_serialize env (u_tunnel_id t) m) w1 = (q2, w2)"
      by (meson surj_pair)
    from le1 udp_finiteD(3) [OF assms(1) send] assms(2,3) ready q send show ?thesis
      by (auto simp: udp_poll_write_state_def udp_call_def Let_def split: poll.splits sum.splits)
  next
    case False
    with assms(2,3) ready le1 show ?thesis
      by (auto simp: udp_poll_write_state_def udp_call_def split: poll.splits sum.splits option.splits)
  qed
qed

lemma udp_write_step_less:
  assumes "udp_finite env fuel" and "udp_write_step env t = Again t'"
  shows "udp_wmu fuel t' < udp_wmu fuel t"
proof (cases "u_write_state t")
  case UdpRecv
  with assms(2) show ?thesis
    by (auto simp: udp_write_step_def udp_poll_write_state_def udp_call_def udp_wmu_def Let_def
        dest!: udp_finiteD(1) [OF assms(1)] split: prod.splits poll.splits option.splits if_splits)
next
  case (UdpWrite x)
  obtain r t1 where call: "udp_poll_write_state env t = (r, t1)" by (meson surj_pair)
  from udp_poll_write_fuel [OF assms(1) this UdpWrite] UdpWrite assms(2) call show ?thesis
    by (auto simp: udp_write_step_def udp_wmu_def Let_def split: outcome.splits poll.splits if_splits)
next
  case UdpStop
  with assms(2) show ?thesis by (simp add: udp_write_step_def udp_poll_write_state_def)
qed

lemma udp_handle_message_fuel:
  assumes "udp_finite env fuel" and "udp_handle_message env m t = (r, t')"
  shows "fuel (u_world t') \<le> fuel (u_world t)"
proof (cases m)
  case (Forward i bs)
  with assms(2) show ?thesis
    by (auto simp: udp_handle_message_def udp_call_def Let_def
        dest: udp_finiteD(7) [OF assms(1)] split: if_splits prod.splits)
next
  case KeepAlive
  obtain n w1 where now: "u_now env (u_world t) = (n, w1)" by (meson surj_pair)
  let ?t = "t\<lparr>u_world := w1, u_trace := u_trace t @ [UNow n],
      u_last_keep_alive := n, u_write_state := UdpWrite (Some KeepAlive)\<rparr>"
  obtain q t1 where call: "udp_poll_write_state env ?t = (q, t1)" by (meson surj_pair)
  from udp_poll_write_fuel [OF assms(1) call, of "Some KeepAlive"] udp_finiteD(8) [OF assms(1) now]
    KeepAlive assms(2) now call
  show ?thesis
    by (auto simp: udp_handle_message_def udp_call_def split: outcome.splits poll.splits if_splits)
qed (use assms in \<open>auto simp: udp_handle_message_def\<close>)

lemma udp_poll_message_less:
  assumes "udp_finite env fuel" and "udp_poll_message env t = (Ret (Ready UdpReadContinue), t')"
  shows "fuel (u_world t') < fuel (u_world t)"
proof -
  obtain q1 w1 where ready: "u_poll_recv_ready env (u_world t) = (q1, w1)" by (meson surj_pair)
  obtain q2 w2 where recv: "u_poll_recv env 65535 w1 = (q2, w2)" by (meson surj_pair)
  from assms(2) ready recv obtain u buffer m where
    q: "q1 = Ready (Inr u)" "q2 = Ready (Inr buffer)" "u_deserialize env buffer = Inr m"
    by (auto simp: udp_poll_message_def udp_call_def split: poll.splits sum.splits)
  have "udp_handle_message env m (t\<lparr>u_world := w2, u_trace := u_trace t @
      [UPollRecvReady q1, UPollRecv q2, UDeserialize (Inr m)]\<rparr>) = (Ret (Ready UdpReadContinue), t')"
    using assms(2) q ready recv by (simp add: udp_poll_message_def udp_call_def)
  from udp_handle_message_fuel [OF assms(1) this] have "fuel (u_world t') \<le> fuel w2" by simp
  moreover have "fuel w2 < fuel w1" "fuel w1 \<le> fuel (u_world t)"
    using udp_finiteD(6) [OF assms(1)] udp_finiteD(5) [OF assms(1) ready] recv q(2) by auto
  ultimately show ?thesis by simp
qed

lemma udp_check_alive_fuel:
  assumes "udp_finite env fuel" and "udp_check_alive env t = (expired, t')"
  shows "fuel (u_world t') \<le> fuel (u_world t)"
proof -
  obtain r w1 where tick: "u_poll_tick env (u_world t) = (r, w1)" by (meson surj_pair)
  obtain n w2 where now: "u_now env w1 = (n, w2)" by (meson surj_pair)
  from udp_finiteD(4) [OF assms(1) tick] udp_finiteD(8) [OF assms(1) now] assms(2) tick now
  show ?thesis by (cases r) (auto simp: udp_check_alive_def udp_call_def Let_def)
qed

lemma udp_read_step_less:
  assumes "udp_finite env fuel" and "udp_read_step env t = Again t'"
  shows "fuel (u_world t') < fuel (u_world t)"
proof -
  obtain expired t1 where alive: "udp_check_alive env t = (expired, t1)" by (meson surj_pair)
  with assms(2) have "\<not> expired" and "udp_poll_message env t1 = (Ret (Ready UdpReadContinue), t')"
    by (auto simp: udp_read_step_def udp_poll_read_state_def
        split: if_splits prod.splits outcome.splits poll.splits)
      (metis (full_types) UdpReadState.exhaust)
  with udp_poll_message_less [OF assms(1)] udp_check_alive_fuel [OF assms(1) alive] show ?thesis
    by fastforce
qed

interpretation udp_total: poll_terminates "udp_write_step env" "udp_read_step env"
    "\<lambda>_. udp_finite env fuel" "\<lambda>_. udp_finite env fuel" "\<lambda>_. udp_finite env fuel"
    "\<lambda>_. True" "\<lambda>_ _. True" "udp_wmu fuel" "\<lambda>t. fuel (u_world t)"
  for env :: "'w udp_env" and fuel :: "'w \<Rightarrow> nat"
  by unfold_locales (simp_all add: flow_sat_True udp_write_step_less udp_read_step_less)

section \<open>A scripted environment\<close>

text \<open>
  For the witnesses: the messages waiting in the sockets' channel, the datagrams waiting on the
  socket, and the time. The keep-alive interval has always elapsed, and sends are never refused.
\<close>

record udp_script =
  script_out :: "UdpMessage list"
  script_in :: "bytes list"
  script_time :: nat

fun script_serialize :: "u32 \<Rightarrow> UdpMessage \<Rightarrow> bytes" where
  "script_serialize i (Forward index bs) = 1 # index # bs"
| "script_serialize i KeepAlive = [2]"
| "script_serialize i _ = []"

fun script_deserialize :: "bytes \<Rightarrow> string + UdpMessage" where
  "script_deserialize (b # bs) =
     (if b = 1 then (case bs of [] \<Rightarrow> Inl ''truncated'' | i # m \<Rightarrow> Inr (Forward i m))
      else if b = 2 then Inr KeepAlive else Inl ''unknown type'')"
| "script_deserialize [] = Inl ''empty''"

definition scripted_udp :: "udp_script udp_env" where
  "scripted_udp =
     \<lparr>u_rx_poll_recv = (\<lambda>w. case script_out w of
          [] \<Rightarrow> (Pending, w) | m # ms \<Rightarrow> (Ready (Some m), w\<lparr>script_out := ms\<rparr>)),
      u_poll_send_ready = (\<lambda>w. (Ready (Inr ()), w)),
      u_poll_send = (\<lambda>bs w. (Ready (Inr (length bs)), w)),
      u_poll_tick = (\<lambda>w. (Ready (), w)),
      u_now = (\<lambda>w. (script_time w, w)),
      u_poll_recv_ready = (\<lambda>w. (Ready (Inr ()), w)),
      u_poll_recv = (\<lambda>k w. case script_in w of
          [] \<Rightarrow> (Pending, w) | m # ms \<Rightarrow> (Ready (Inr (take k m)), w\<lparr>script_in := ms\<rparr>)),
      u_handle_send = (\<lambda>h m w. (True, w)),
      u_duration_since = (\<lambda>a b. a - b),
      u_serialize = script_serialize,
      u_deserialize = script_deserialize\<rparr>"

definition four_udp_handles :: "UdpSocketHandle list" where
  "four_udp_handles = map UdpSocketHandle [0, 1, 2, 3]"

lemma scripted_udp_clocked: "clocked scripted_udp script_time"
  by (simp add: clocked_def scripted_udp_def split: list.split)

lemma scripted_udp_saturating: "saturating scripted_udp"
  by (simp add: saturating_def scripted_udp_def)

lemma scripted_udp_finite:
  "udp_finite scripted_udp (\<lambda>w. length (script_out w) + length (script_in w))"
  by (simp add: udp_finite_def scripted_udp_def split: list.split)

lemma scripted_udp_live:
  "now \<le> script_time w \<Longrightarrow> udp_live scripted_udp script_time (new_udp_tunnel 5 four_udp_handles now w)"
  by (rule udp_live.start) (simp_all add: four_udp_handles_def UDP_SOCKET_POOL_SIZE_def)

text \<open>
  One poll long after the last keep-alive: a message from socket 1 goes out, one for socket 2 comes
  in, and a keep-alive is answered.
\<close>

definition script_start :: udp_script where
  "script_start =
     \<lparr>script_out = [Forward 1 [7]], script_in = [[1, 2, 8, 9], [2]], script_time = 100000\<rparr>"

lemmas udp_evaluate = udp_poll_def poll_future_def while_let_unfold udp_write_step_def
  udp_poll_write_state_def udp_read_step_def udp_poll_read_state_def udp_check_alive_def
  udp_poll_message_def udp_handle_message_def udp_call_def new_udp_tunnel_def Let_def

lemma scripted_udp_poll:
  "udp_poll scripted_udp (new_udp_tunnel 5 four_udp_handles 0 script_start) =
     Some (Ret Pending,
       \<lparr>u_tunnel_id = 5, u_pool = four_udp_handles, u_write_state = UdpRecv,
        u_last_keep_alive = 100000,
        u_world = \<lparr>script_out = [], script_in = [], script_time = 100000\<rparr>,
        u_trace = [URxPollRecv (Ready (Some (Forward 1 [7]))), UPollSendReady (Ready (Inr ())),
          UPollSend (Forward 1 [7]) [1, 1, 7] (Ready (Inr 3)), URxPollRecv Pending,
          UPollTick (Ready ()), UNow 100000, UPollRecvReady (Ready (Inr ())),
          UPollRecv (Ready (Inr [1, 2, 8, 9])), UDeserialize (Inr (Forward 2 [8, 9])),
          UHandleSend (UdpSocketHandle 2) [8, 9] True,
          UPollTick (Ready ()), UNow 100000, UPollRecvReady (Ready (Inr ())),
          UPollRecv (Ready (Inr [2])), UDeserialize (Inr KeepAlive), UNow 100000,
          UPollSendReady (Ready (Inr ())), UPollSend KeepAlive [2] (Ready (Inr 1)),
          UPollTick (Ready ()), UNow 100000, UPollRecvReady (Ready (Inr ())), UPollRecv Pending]\<rparr>)"
  by (simp add: udp_evaluate scripted_udp_def script_start_def four_udp_handles_def
      KEEP_ALIVE_TIMEOUT_def)

section \<open>Properties\<close>

text \<open>C9: A poll of a live UDP tunnel panics in two cases only: the socket, having reported that it can
  send, answers the send with an error, and that send is the last call; or it has answered some send
  with pending. It is never polled in its stopped state.\<close>
theorem udp_panic_causes:
  assumes "udp_live env clock t" and "udp_poll env t = Some (Panic msg, t')"
  shows "msg = ''Message encoder errored'' \<and>
      (\<exists>tr m buffer e. u_trace t' = tr @ [UPollSend m buffer (Ready (Inl e))]) \<or>
    msg = ''Unexpected write state without message'' \<and>
      (\<exists>m buffer. UPollSend m buffer Pending \<in> set (u_trace t'))"
  using udp_poll_result [OF udp_live_inv [OF assms(1)] assms(2)]
  by (auto simp: udp_pnc_def u_panicked_def u_pended_def)

definition refusing_udp :: "udp_script udp_env" where
  "refusing_udp = scripted_udp\<lparr>u_poll_send := \<lambda>bs w. (Ready (Inl ''unreachable''), w)\<rparr>"

lemma refusing_udp_poll:
  "udp_poll refusing_udp (new_udp_tunnel 5 four_udp_handles 0 script_start) =
     Some (Panic ''Message encoder errored'',
       \<lparr>u_tunnel_id = 5, u_pool = four_udp_handles, u_write_state = UdpWrite None,
        u_last_keep_alive = 0, u_world = script_start\<lparr>script_out := []\<rparr>,
        u_trace = [URxPollRecv (Ready (Some (Forward 1 [7]))), UPollSendReady (Ready (Inr ())),
          UPollSend (Forward 1 [7]) [1, 1, 7] (Ready (Inl ''unreachable''))]\<rparr>)"
  by (simp add: udp_evaluate scripted_udp_def refusing_udp_def script_start_def four_udp_handles_def)

theorem udp_panic_causes_witness:
  "\<exists>msg t'. udp_poll refusing_udp (new_udp_tunnel 5 four_udp_handles 0 script_start) = Some (Panic msg, t') \<and>
    (msg = ''Message encoder errored'' \<and>
      (\<exists>tr m buffer e. u_trace t' = tr @ [UPollSend m buffer (Ready (Inl e))]) \<or>
    msg = ''Unexpected write state without message'' \<and>
      (\<exists>m buffer. UPollSend m buffer Pending \<in> set (u_trace t')))"
proof -
  have "udp_live refusing_udp script_time (new_udp_tunnel 5 four_udp_handles 0 script_start)"
    by (rule udp_live.start) (simp_all add: four_udp_handles_def UDP_SOCKET_POOL_SIZE_def)
  from udp_panic_causes [OF this refusing_udp_poll] refusing_udp_poll show ?thesis by blast
qed

text \<open>C6: Over the whole life of a UDP tunnel, whatever the socket answers, the data messages it
  accepts for the server are among those taken from the sockets, in that order and none twice.
  Besides the one being written, at most one is missing for each keep-alive received and one for
  each send that the socket answered pending or an error.\<close>
theorem udp_outbound_order:
  assumes "udp_live env clock t" and "udp_poll env t = Some (r, t')"
  shows "subseq (u_data (over_trace u_accepted (u_trace t'))) (u_data (over_trace u_taken (u_trace t'))) \<and>
    length (u_data (over_trace u_taken (u_trace t'))) \<le>
      length (u_data (over_trace u_accepted (u_trace t'))) + 1 +
      count_list (over_trace u_received (u_trace t')) KeepAlive +
      length (u_data (over_trace u_refused (u_trace t')))"
proof -
  obtain lost where lost: "length lost \<le> 1" "u_out_subseq lost (u_trace t')" "u_out_loss lost (u_trace t')"
    using udp_live_fin [OF assms] unfolding udp_fin_def by blast
  have "length (u_data lost) \<le> 1"
    using lost(1) length_filter_le [of "\<lambda>m. m \<noteq> KeepAlive" lost] by linarith
  with lost(3) u_out_subseq_drop [OF lost(2)] show ?thesis
    by (simp add: u_out_loss_def u_out_subseq_def)
qed

theorem udp_outbound_order_witness:
  "\<exists>r t'. udp_poll scripted_udp (new_udp_tunnel 5 four_udp_handles 0 script_start) = Some (r, t') \<and>
    subseq (u_data (over_trace u_accepted (u_trace t'))) (u_data (over_trace u_taken (u_trace t')))"
proof -
  note live = scripted_udp_live [of 0 script_start]
  have "0 \<le> script_time script_start" by simp
  from udp_outbound_order [OF live [OF this] scripted_udp_poll] scripted_udp_poll
  show ?thesis by blast
qed

text \<open>C4: Over the whole life of a UDP tunnel, what is delivered to the local sockets is what the
  server sent, in that order: each forwarded message goes to the socket of its index, once;
  everything else, and an index outside the pool of four, is dropped. This holds after every poll,
  whether it answers pending, ends the tunnel or panics.\<close>
theorem udp_inbound_routing:
  assumes "udp_live env clock t" and "udp_poll env t = Some (r, t')"
  shows "over_trace u_delivered (u_trace t') =
    concat (map (u_route (u_pool t')) (over_trace u_received (u_trace t')))"
  using udp_live_fin [OF assms] by (simp add: udp_fin_def u_in_routed_def)

theorem udp_inbound_routing_witness:
  "\<exists>r t'. udp_poll scripted_udp (new_udp_tunnel 5 four_udp_handles 0 script_start) = Some (r, t') \<and>
    over_trace u_delivered (u_trace t') =
      concat (map (u_route (u_pool t')) (over_trace u_received (u_trace t')))"
  using udp_inbound_routing [OF scripted_udp_live scripted_udp_poll]
    scripted_udp_poll by fastforce

text \<open>C30: A poll of a live UDP tunnel returns, when the environment has only finitely many messages
  and datagrams ready.\<close>
theorem udp_poll_returns:
  assumes "udp_live env clock t" and "udp_finite env fuel"
  shows "\<exists>r t'. udp_poll env t = Some (r, t')"
  unfolding udp_poll_def by (rule udp_total.poll_returns) (rule assms(2))

theorem udp_poll_returns_witness:
  "\<exists>r t'. udp_poll scripted_udp (new_udp_tunnel 5 four_udp_handles 0 script_start) = Some (r, t')"
  by (rule udp_poll_returns [OF scripted_udp_live scripted_udp_finite]) simp



text \<open>The exception occurs: a keep-alive arrives while a message waits for the socket.\<close>

lemma udp_displaced_occurs:
  "\<exists>t'. udp_poll (scripted_udp\<lparr>u_poll_send_ready := \<lambda>w. (if script_in w = [] then Ready (Inr ()) else Pending, w)\<rparr>)
      (new_udp_tunnel 5 four_udp_handles 0 \<lparr>script_out = [Forward 1 [7]], script_in = [[2]], script_time = 9\<rparr>) =
      Some (Ret Pending, t') \<and>
    u_write_state t' = UdpRecv \<and> u_displaced (u_trace t') \<and> \<not> u_write_armed UdpRecv (u_trace t')"
  by (simp add: udp_evaluate scripted_udp_def four_udp_handles_def KEEP_ALIVE_TIMEOUT_def u_displaced_def)

text \<open>C11: A live UDP tunnel only ever ends because its channel closed, its socket failed or a datagram
  was malformed, the answer to its last call, or by a panic after a send that was answered pending
  or an error. However long ago the last keep-alive was, the keep-alive timeout never ends it,
  because the code asks for the time since now at the last keep-alive, which the documentation of
  \<^verbatim>\<open>duration_since\<close> (\<open>saturating\<close>) makes zero; the clock is one that never goes back
  (\<open>clocked\<close>).\<close>
theorem udp_stop_reasons:
  assumes "clocked env clock" and "saturating env"
    and "udp_live env clock t" and "udp_poll env t = Some (r, t')" and "r \<noteq> Ret Pending"
  shows "r = Ret (Ready ()) \<and> u_trace t' \<noteq> [] \<and> stop_event (last (u_trace t')) \<or>
    (\<exists>msg. r = Panic msg) \<and> over_trace u_refused (u_trace t') \<noteq> []"
proof -
  have "u_alive clock t" using assms(1-3) by (simp add: udp_live_alive)
  from udp_clock_result [OF this assms(1,2,4)] assms(5)
    udp_poll_result [OF udp_live_inv [OF assms(3)] assms(4)]
  show ?thesis by (auto simp: u_stopped_def udp_pnc_def dest: u_panicked_refused)
qed

lemma scripted_udp_stop:
  "udp_poll scripted_udp (new_udp_tunnel 5 four_udp_handles 0
      \<lparr>script_out = [], script_in = [[99]], script_time = 100000\<rparr>) =
     Some (Ret (Ready ()),
       \<lparr>u_tunnel_id = 5, u_pool = four_udp_handles, u_write_state = UdpRecv, u_last_keep_alive = 0,
        u_world = \<lparr>script_out = [], script_in = [], script_time = 100000\<rparr>,
        u_trace = [URxPollRecv Pending, UPollTick (Ready ()), UNow 100000,
          UPollRecvReady (Ready (Inr ())), UPollRecv (Ready (Inr [99])),
          UDeserialize (Inl ''unknown type'')]\<rparr>)"
  by (simp add: udp_evaluate scripted_udp_def four_udp_handles_def)

theorem udp_stop_reasons_witness:
  "\<exists>r t'. udp_poll scripted_udp (new_udp_tunnel 5 four_udp_handles 0
      \<lparr>script_out = [], script_in = [[99]], script_time = 100000\<rparr>) = Some (r, t') \<and>
    (r = Ret (Ready ()) \<and> u_trace t' \<noteq> [] \<and> stop_event (last (u_trace t')) \<or>
     (\<exists>msg. r = Panic msg) \<and> over_trace u_refused (u_trace t') \<noteq> [])"
  using udp_stop_reasons [OF scripted_udp_clocked scripted_udp_saturating
    scripted_udp_live scripted_udp_stop] scripted_udp_stop by fastforce

text \<open>C36: Answering a keep-alive discards the message that the write half was waiting to send: whatever
  the environment answers, the message is neither sent nor kept.\<close>
theorem udp_keep_alive_discards:
  assumes "u_write_state t = UdpWrite (Some m)"
    and "udp_handle_message env KeepAlive t = (r, t')"
  shows "u_data (over_trace u_sent (u_trace t')) = u_data (over_trace u_sent (u_trace t)) \<and>
    u_data (u_held (u_write_state t')) = []"
proof -
  obtain n w1 where now: "u_now env (u_world t) = (n, w1)" by (meson surj_pair)
  obtain q w2 where ready: "u_poll_send_ready env w1 = (q, w2)" by (meson surj_pair)
  obtain q3 w3 where "u_poll_send env (u_serialize env (u_tunnel_id t) KeepAlive) w2 = (q3, w3)"
    by (meson surj_pair)
  with assms(2) now ready show ?thesis
    by (auto simp: udp_handle_message_def udp_poll_write_state_def udp_call_def Let_def
        split: poll.splits sum.splits)
qed

theorem udp_keep_alive_discards_witness:
  "let t = (new_udp_tunnel 5 four_udp_handles 0 script_start)\<lparr>u_write_state := UdpWrite (Some (Forward 1 [7]))\<rparr>;
       t' = snd (udp_handle_message scripted_udp KeepAlive t)
   in u_data (over_trace u_sent (u_trace t')) = [] \<and> u_data (u_held (u_write_state t')) = []"
  using udp_keep_alive_discards [where m = "Forward 1 [7]" and env = scripted_udp and
      t = "(new_udp_tunnel 5 four_udp_handles 0 script_start)\<lparr>u_write_state := UdpWrite (Some (Forward 1 [7]))\<rparr>"]
  by (simp add: Let_def new_udp_tunnel_def prod_eq_iff)



end
