(* ===== verification/Pool_Start.thy ===== *)
theory Pool_Start
  imports Pool_Socket Servers Tunnel Udp_Tunnel
begin

text \<open>
  Starting the sockets of a tunnel: \<^verbatim>\<open>Socket::start\<close> and \<^verbatim>\<open>Socket::allocate_pool\<close>, the same in
  \<^verbatim>\<open>src/src/servers/tunnel.rs\<close> and \<^verbatim>\<open>src/src/servers/udp_tunnel.rs\<close>, and the two instances
  of the generic socket of \<open>Pool_Socket\<close>.
\<close>

section \<open>The two sockets\<close>

text \<open>The TCP tunnel's channels carry tunnel messages both ways.\<close>

definition tcp_payload :: "TunnelMessage \<Rightarrow> bytes" where
  "tcp_payload message = tm_message message"

definition tcp_wrap :: "u8 \<Rightarrow> bytes \<Rightarrow> TunnelMessage" where
  "tcp_wrap index bs = \<lparr>tm_index = index, tm_message = bs\<rparr>"

definition tcp_socket_poll ::
  "(TunnelMessage, TunnelMessage, 'w) socket_env \<Rightarrow> (TunnelMessage, TunnelMessage, 'w) Socket \<Rightarrow>
   (unit poll outcome \<times> (TunnelMessage, TunnelMessage, 'w) Socket) option" where
  "tcp_socket_poll = socket_poll tcp_payload tcp_wrap"

text \<open>
  The UDP tunnel's carry plain bytes to the socket and \<^verbatim>\<open>Forward\<close> messages back. What is left after
  a short send is \<^verbatim>\<open>split_off(count)\<close> there and a slice in the TCP tunnel: the same bytes, and a
  panic (with different texts) in the same case.
\<close>

definition udp_socket_poll_write_state ::
  "(bytes, UdpMessage, 'w) socket_env \<Rightarrow> (bytes, UdpMessage, 'w) Socket \<Rightarrow>
   SocketWriteState poll outcome \<times> (bytes, UdpMessage, 'w) Socket" where
  "udp_socket_poll_write_state = socket_poll_write_state (\<lambda>message. message)"

definition udp_socket_poll_read_state ::
  "(bytes, UdpMessage, 'w) socket_env \<Rightarrow> (bytes, UdpMessage, 'w) Socket \<Rightarrow>
   SocketReadState poll outcome \<times> (bytes, UdpMessage, 'w) Socket" where
  "udp_socket_poll_read_state = socket_poll_read_state Forward"

definition udp_socket_poll ::
  "(bytes, UdpMessage, 'w) socket_env \<Rightarrow> (bytes, UdpMessage, 'w) Socket \<Rightarrow>
   (unit poll outcome \<times> (bytes, UdpMessage, 'w) Socket) option" where
  "udp_socket_poll = socket_poll (\<lambda>message. message) Forward"

section \<open>Starting one socket\<close>

text \<open>
  \<^verbatim>\<open>start\<close> awaits twice, for \<^verbatim>\<open>bind\<close> and for \<^verbatim>\<open>connect\<close>; between the awaits other futures run.
  A branch of the join is at one of these points, or has its handle. The operations of
  \<^verbatim>\<open>tokio::net::UdpSocket\<close> are parameters: they give their answer in a world \<open>'w\<close>, and sockets
  are of the abstract type \<open>'s\<close>.
\<close>

record ('s, 'w) net_env =
  net_bind :: "u16 \<Rightarrow> 'w \<Rightarrow> (io_error + 's) \<times> 'w"
  net_connect :: "'s \<Rightarrow> u16 \<Rightarrow> 'w \<Rightarrow> (io_error + unit) \<times> 'w"

record 's started_socket =
  started_handle :: nat
  started_index :: u8
  started_port :: u16
  started_io :: 's

text \<open>\<open>pool_tasks\<close> is the socket tasks spawned so far; a handle is the position of its task.\<close>

record ('s, 'w) pool_state =
  pool_world :: 'w
  pool_servers :: server_state
  pool_tasks :: "'s started_socket list"

datatype 's start_point = AtBind | AtConnect 's | Started nat

definition LOCAL_SEND_TARGET :: u16 where
  "LOCAL_SEND_TARGET = GAME_HOST_PORT"

fun socket_start ::
  "('s, 'w) net_env \<Rightarrow> u8 \<Rightarrow> u16 \<Rightarrow> 's start_point \<Rightarrow> ('s, 'w) pool_state \<Rightarrow>
   (io_error + 's start_point) \<times> ('s, 'w) pool_state" where
  "socket_start env index port AtBind st =
     (case net_bind env port (pool_world st) of
        (Inl e, w) \<Rightarrow> (Inl e, st\<lparr>pool_world := w\<rparr>)
      | (Inr socket, w) \<Rightarrow> (Inr (AtConnect socket), st\<lparr>pool_world := w\<rparr>))"
| "socket_start env index port (AtConnect socket) st =
     (case net_connect env socket LOCAL_SEND_TARGET (pool_world st) of
        (Inl e, w) \<Rightarrow> (Inl e, st\<lparr>pool_world := w\<rparr>)
      | (Inr _, w) \<Rightarrow>
          let handle = fst (tokio_spawn (pool_servers st))
          in (Inr (Started handle),
              st\<lparr>pool_world := w, pool_servers := spawn_server_task (pool_servers st),
                 pool_tasks := pool_tasks st @
                   [\<lparr>started_handle = handle, started_index = index, started_port = port,
                     started_io = socket\<rparr>]\<rparr>))"
| "socket_start env index port (Started handle) st = (Inr (Started handle), st)"

section \<open>Starting the pool\<close>

definition pool_ports :: "u16 list" where
  "pool_ports = [TUNNEL_HOST_PORT, RANDOM_PORT, RANDOM_PORT, RANDOM_PORT]"

fun started_handles :: "'s start_point list \<Rightarrow> nat list option" where
  "started_handles [] = Some []"
| "started_handles (Started h # bs) = map_option (\<lambda>hs. h # hs) (started_handles bs)"
| "started_handles (_ # bs) = None"

text \<open>
  \<^verbatim>\<open>try_join!\<close> runs the four branches at once: the schedule says which branch goes on next. The
  first error ends the join; when every branch has its handle, the join answers the handles in
  the order in which the branches are written.
\<close>

fun try_join ::
  "('s, 'w) net_env \<Rightarrow> nat list \<Rightarrow> 's start_point list \<Rightarrow> ('s, 'w) pool_state \<Rightarrow>
   (io_error + nat list) poll \<times> ('s, 'w) pool_state" where
  "try_join env [] branches st =
     (case started_handles branches of Some hs \<Rightarrow> (Ready (Inr hs), st) | None \<Rightarrow> (Pending, st))"
| "try_join env (i # schedule) branches st =
     (if i < length branches then
        (case socket_start env (word_of_nat i) (pool_ports ! i) (branches ! i) st of
           (Inl e, st) \<Rightarrow> (Ready (Inl e), st)
         | (Inr b, st) \<Rightarrow> try_join env schedule (branches[i := b]) st)
      else try_join env schedule branches st)"

definition allocate_pool ::
  "('s, 'w) net_env \<Rightarrow> nat list \<Rightarrow> ('s, 'w) pool_state \<Rightarrow>
   (io_error + nat list) poll \<times> ('s, 'w) pool_state" where
  "allocate_pool env schedule st = try_join env schedule (replicate SOCKET_POOL_SIZE AtBind) st"


section \<open>The branches keep to their index and port\<close>

definition bound_to :: "('s, 'w) net_env \<Rightarrow> u16 \<Rightarrow> 's \<Rightarrow> bool" where
  "bound_to env port socket \<longleftrightarrow> (\<exists>w w'. net_bind env port w = (Inr socket, w'))"

text \<open>The task behind a handle serves the index and the port of the branch, and it runs.\<close>

definition serves :: "('s, 'w) net_env \<Rightarrow> ('s, 'w) pool_state \<Rightarrow> nat \<Rightarrow> nat \<Rightarrow> bool" where
  "serves env st i h \<longleftrightarrow>
     h \<in> running (pool_servers st) \<and> h \<in> set (collection (pool_servers st)) \<and>
     (\<exists>t \<in> set (pool_tasks st). started_handle t = h \<and> started_index t = word_of_nat i \<and>
        started_port t = pool_ports ! i \<and> bound_to env (pool_ports ! i) (started_io t))"

fun branch_ok :: "('s, 'w) net_env \<Rightarrow> ('s, 'w) pool_state \<Rightarrow> nat \<Rightarrow> 's start_point \<Rightarrow> bool" where
  "branch_ok env st i AtBind = True"
| "branch_ok env st i (AtConnect socket) = bound_to env (pool_ports ! i) socket"
| "branch_ok env st i (Started h) = serves env st i h"

definition pool_ok :: "('s, 'w) net_env \<Rightarrow> ('s, 'w) pool_state \<Rightarrow> 's start_point list \<Rightarrow> bool" where
  "pool_ok env st branches \<longleftrightarrow>
     length branches = SOCKET_POOL_SIZE \<and> (\<forall>i < SOCKET_POOL_SIZE. branch_ok env st i (branches ! i)) \<and>
     (\<forall>i < SOCKET_POOL_SIZE. \<forall>j < SOCKET_POOL_SIZE. \<forall>h.
        branches ! i = Started h \<longrightarrow> branches ! j = Started h \<longrightarrow> i = j)"

lemma bound_toI: "net_bind env port w = (Inr socket, w') \<Longrightarrow> bound_to env port socket"
  by (auto simp: bound_to_def)

lemma running_less: "h \<in> running s \<Longrightarrow> h < length (tasks s)"
  by (simp add: running_def)

lemma spawn_server_task_simps [simp]:
  "running (spawn_server_task s) = insert (length (tasks s)) (running s)"
  "collection (spawn_server_task s) = collection s @ [length (tasks s)]"
  by (simp_all add: spawn_server_task_def tokio_spawn_def add_server_task_def)

lemma branch_ok_start:
  assumes "socket_start env index port b st = (r, st')" and "branch_ok env st i b'"
  shows "branch_ok env st' i b'"
  using assms
  by (cases b; cases b') (auto simp: serves_def Let_def split: prod.splits sum.splits)

lemma socket_start_ok:
  assumes "socket_start env (word_of_nat i) (pool_ports ! i) b st = (Inr b', st')"
    and "branch_ok env st i b"
  shows "branch_ok env st' i b' \<and>
    (\<forall>h. b' = Started h \<longrightarrow> b = Started h \<or> h = length (tasks (pool_servers st)))"
  using assms
  by (cases b)
    (auto simp: serves_def Let_def tokio_spawn_def bound_toI split: prod.splits sum.splits)

lemma pool_ok_step:
  assumes "pool_ok env st branches" and "i < SOCKET_POOL_SIZE"
    and "socket_start env (word_of_nat i) (pool_ports ! i) (branches ! i) st = (Inr b, st')"
  shows "pool_ok env st' (branches[i := b])"
proof -
  have ok: "branch_ok env st j (branches ! j)" if "j < SOCKET_POOL_SIZE" for j
    using assms(1) that by (simp add: pool_ok_def)
  have new: "branch_ok env st' i b"
    "\<And>h. b = Started h \<Longrightarrow> branches ! i = Started h \<or> h = length (tasks (pool_servers st))"
    using socket_start_ok [OF assms(3) ok [OF assms(2)]] by auto
  have less: "h < length (tasks (pool_servers st))"
    if "j < SOCKET_POOL_SIZE" "branches ! j = Started h" for j h
    using ok [OF that(1)] that(2) by (auto simp: serves_def dest: running_less)
  have "branch_ok env st' j (branches[i := b] ! j)" if "j < SOCKET_POOL_SIZE" for j
    using branch_ok_start [OF assms(3) ok [OF that]] new(1) assms(1) that
    by (cases "j = i") (simp_all add: pool_ok_def)
  moreover have "j = k"
    if "j < SOCKET_POOL_SIZE" "k < SOCKET_POOL_SIZE" "branches[i := b] ! j = Started h"
      "branches[i := b] ! k = Started h" for j k h
  proof -
    have uniq: "j = k" if "j < SOCKET_POOL_SIZE" "k < SOCKET_POOL_SIZE" "branches ! j = Started h"
      "branches ! k = Started h" for j k h
      using assms(1) that unfolding pool_ok_def by blast
    have fresh: "l = i" if "l < SOCKET_POOL_SIZE" "branches ! l = Started h" "b = Started h" for l
      using new(2) [OF that(3)] uniq [OF that(1) assms(2) that(2)] less [OF that(1,2)] by auto
    have "i < length branches" using assms(1,2) by (simp add: pool_ok_def)
    then have eq: "branches[i := b] ! l = (if l = i then b else branches ! l)" for l
      by simp
    from that(3,4) have "(if j = i then b else branches ! j) = Started h"
      "(if k = i then b else branches ! k) = Started h" unfolding eq by simp_all
    with uniq [OF that(1,2)] fresh [OF that(1)] fresh [OF that(2)] show ?thesis
      by metis
  qed
  ultimately show ?thesis
    using assms(1) by (auto simp: pool_ok_def)
qed

lemma started_handles_nth:
  "started_handles bs = Some hs \<Longrightarrow> length hs = length bs \<and> (\<forall>i < length bs. bs ! i = Started (hs ! i))"
  by (induction bs arbitrary: hs rule: started_handles.induct) (auto simp: nth_Cons split: nat.split)

lemma try_join_ok:
  "try_join env schedule branches st = (Ready (Inr hs), st') \<Longrightarrow> pool_ok env st branches \<Longrightarrow>
   length hs = SOCKET_POOL_SIZE \<and> distinct hs \<and> (\<forall>i < SOCKET_POOL_SIZE. serves env st' i (hs ! i))"
proof (induction schedule arbitrary: branches st)
  case Nil
  then have hs: "started_handles branches = Some hs" "st' = st"
    by (auto split: option.splits)
  note nth = started_handles_nth [OF hs(1)]
  from Nil(2) have len: "length branches = SOCKET_POOL_SIZE" by (simp add: pool_ok_def)
  have "distinct hs"
    unfolding distinct_conv_nth using Nil(2) nth len by (auto simp: pool_ok_def)
  moreover have "serves env st' i (hs ! i)" if "i < SOCKET_POOL_SIZE" for i
    using Nil(2) nth len that hs(2) by (auto simp: pool_ok_def)
  ultimately show ?case using nth len by simp
next
  case (Cons i schedule)
  then have len: "length branches = SOCKET_POOL_SIZE" by (simp add: pool_ok_def)
  show ?case
  proof (cases "i < SOCKET_POOL_SIZE")
    case True
    then obtain b st1 where
      "socket_start env (word_of_nat i) (pool_ports ! i) (branches ! i) st = (Inr b, st1)"
      "try_join env schedule (branches[i := b]) st1 = (Ready (Inr hs), st')"
      using Cons.prems len by (auto split: prod.splits sum.splits)
    with Cons.IH pool_ok_step [OF Cons.prems(2) True] show ?thesis by blast
  next
    case False
    with Cons len show ?thesis by simp
  qed
qed

lemma allocate_pool_ok:
  "allocate_pool env schedule st = (Ready (Inr hs), st') \<Longrightarrow>
   length hs = SOCKET_POOL_SIZE \<and> distinct hs \<and> (\<forall>i < SOCKET_POOL_SIZE. serves env st' i (hs ! i))"
  unfolding allocate_pool_def by (erule try_join_ok) (simp add: pool_ok_def)

section \<open>Property\<close>

lemma pool_ports_nth: "i < 4 \<Longrightarrow> pool_ports ! i = (if i = 0 then 42132 else 0)"
  by (auto simp: pool_ports_def TUNNEL_HOST_PORT_def RANDOM_PORT_def less_Suc_eq numeral_eq_Suc)

text \<open>C12: However the starts of the four sockets interleave, a pool that is handed to a tunnel has four
  different sockets, and the one at position i is a running, registered task that forwards under
  index i through a socket bound to the port of that index: the fixed host port 42132 for 0, and
  for the others port 0, for which the system chooses a free one. This is what routing by index
  relies on.\<close>
theorem allocate_pool_indices:
  assumes "allocate_pool env schedule st = (Ready (Inr hs), st')"
  shows "length hs = 4 \<and> distinct hs \<and>
    (\<forall>i < 4. hs ! i \<in> running (pool_servers st') \<and> hs ! i \<in> set (collection (pool_servers st')) \<and>
      (\<exists>t \<in> set (pool_tasks st'). started_handle t = hs ! i \<and> started_index t = word_of_nat i \<and>
         started_port t = (if i = 0 then 42132 else 0) \<and>
         bound_to env (if i = 0 then 42132 else 0) (started_io t)))"
  using allocate_pool_ok [OF assms]
  by (simp add: SOCKET_POOL_SIZE_def serves_def pool_ports_nth)

text \<open>A network on which the sockets are numbered as they are bound.\<close>

definition counting_net :: "(nat, nat) net_env" where
  "counting_net = \<lparr>net_bind = (\<lambda>port w. (Inr w, Suc w)), net_connect = (\<lambda>s target w. (Inr (), w))\<rparr>"

theorem allocate_pool_indices_witness:
  "\<exists>st'. allocate_pool counting_net [2, 0, 1, 1, 3, 2, 0, 3] \<lparr>pool_world = 0, pool_servers = no_servers, pool_tasks = []\<rparr> =
      (Ready (Inr [2, 0, 1, 3]), st') \<and>
    (\<exists>t \<in> set (pool_tasks st'). started_handle t = 2 \<and> started_index t = 0 \<and> started_port t = 42132) \<and>
    (\<exists>t \<in> set (pool_tasks st'). started_handle t = 1 \<and> started_index t = 2 \<and> started_port t = 0)"
proof -
  obtain st' where run: "allocate_pool counting_net [2, 0, 1, 1, 3, 2, 0, 3]
      \<lparr>pool_world = 0, pool_servers = no_servers, pool_tasks = []\<rparr> = (Ready (Inr [2, 0, 1, 3]), st')"
    by (simp add: allocate_pool_def SOCKET_POOL_SIZE_def numeral_eq_Suc counting_net_def
        no_servers_def spawn_server_task_def tokio_spawn_def add_server_task_def Let_def)
  from allocate_pool_indices [OF this]
  have serves: "i < 4 \<Longrightarrow> \<exists>t \<in> set (pool_tasks st'). started_handle t = [2, 0, 1, 3] ! i \<and>
      started_index t = word_of_nat i \<and> started_port t = (if i = 0 then 42132 else 0)" for i
    by blast
  from serves [of 0] serves [of 2] run show ?thesis by auto
qed

end
