(* ===== verification/Text.thy ===== *)
theory Text
  imports Prelude
begin

text \<open>
  The string and slice operations of Rust's standard library that the servers use. A
  \<^verbatim>\<open>&str\<close> or \<^verbatim>\<open>String\<close> is its UTF-8 bytes (\<^typ>\<open>rstring\<close>).
\<close>

named_theorems text_simps \<open>evaluating string operations\<close>

section \<open>Literals and decimal numbers\<close>

definition str :: "string \<Rightarrow> rstring" where
  "str s = map of_char s"

fun decimal :: "nat \<Rightarrow> rstring" where
  "decimal n = (if n < 10 then [] else decimal (n div 10)) @ [word_of_nat (48 + n mod 10)]"

declare decimal.simps [simp del]

text \<open>\<^verbatim>\<open>{:?}\<close> of a byte slice: a bracketed list of decimal numbers.\<close>

fun comma_separated :: "bytes \<Rightarrow> rstring" where
  "comma_separated [] = []"
| "comma_separated [b] = decimal (unat b)"
| "comma_separated (b # bs) = decimal (unat b) @ [44, 32] @ comma_separated bs"

definition debug_bytes :: "bytes \<Rightarrow> rstring" where
  "debug_bytes bs = [91] @ comma_separated bs @ [93]"

section \<open>Prefixes and splitting\<close>

definition starts_with :: "rstring \<Rightarrow> rstring \<Rightarrow> bool" where
  "starts_with s p = (take (length p) s = p)"

definition strip_prefix :: "rstring \<Rightarrow> rstring \<Rightarrow> rstring option" where
  "strip_prefix s p = (if starts_with s p then Some (drop (length p) s) else None)"

definition ends_with :: "rstring \<Rightarrow> rstring \<Rightarrow> bool" where
  "ends_with s p = starts_with (rev s) (rev p)"

text \<open>\<^verbatim>\<open>slice.split(p)\<close>: the pieces between the separators; never no piece.\<close>

fun split_on :: "u8 \<Rightarrow> bytes \<Rightarrow> bytes list" where
  "split_on sep [] = [[]]"
| "split_on sep (b # bs) =
     (if b = sep then [] # split_on sep bs
      else (case split_on sep bs of [] \<Rightarrow> [[b]] | p # ps \<Rightarrow> (b # p) # ps))"

text \<open>\<^verbatim>\<open>slice.splitn(2, p)\<close>: the piece before the first separator and, if there is one, the rest.\<close>

fun splitn2 :: "u8 \<Rightarrow> bytes \<Rightarrow> bytes \<times> bytes option" where
  "splitn2 sep [] = ([], None)"
| "splitn2 sep (b # bs) =
     (if b = sep then ([], Some bs) else (let (first, second) = splitn2 sep bs in (b # first, second)))"

lemma split_on_not_Nil [simp]: "split_on sep bs \<noteq> []"
  by (induction bs) (auto split: list.split)

lemma split_on_append:
  "sep \<notin> set p \<Longrightarrow> split_on sep (p @ sep # bs) = p # split_on sep bs"
  by (induction p) auto

lemma split_on_last: "sep \<notin> set p \<Longrightarrow> split_on sep p = [p]"
  by (induction p) auto

lemma splitn2_append: "sep \<notin> set p \<Longrightarrow> splitn2 sep (p @ sep # bs) = (p, Some bs)"
  by (induction p) auto

lemma splitn2_none: "sep \<notin> set p \<Longrightarrow> splitn2 sep p = (p, None)"
  by (induction p) auto

section \<open>UTF-8\<close>

text \<open>
  One step of the decoder of \<^verbatim>\<open>core::str::lossy\<close>: how many bytes of a non-empty input belong
  together, and whether they are a character. The ranges of the second byte exclude overlong
  forms, surrogates and values above U+10FFFF.
\<close>

definition byte_at :: "bytes \<Rightarrow> nat \<Rightarrow> nat" where
  "byte_at bs i = (if i < length bs then unat (bs ! i) else 0)"

definition is_cont :: "nat \<Rightarrow> bool" where
  "is_cont b \<longleftrightarrow> 128 \<le> b \<and> b < 192"

definition second_ok :: "nat \<Rightarrow> nat \<Rightarrow> bool" where
  "second_ok b c \<longleftrightarrow>
     (if b < 224 then is_cont c
      else if b = 224 then 160 \<le> c \<and> c < 192
      else if b = 237 then 128 \<le> c \<and> c < 160
      else if b < 240 then is_cont c
      else if b = 240 then 144 \<le> c \<and> c < 192
      else if b < 244 then is_cont c
      else 128 \<le> c \<and> c < 144)"

definition utf8_width :: "nat \<Rightarrow> nat" where
  "utf8_width b =
     (if b < 128 then 1 else if b < 194 then 0 else if b < 224 then 2 else if b < 240 then 3
      else if b < 245 then 4 else 0)"

definition utf8_chunk :: "bytes \<Rightarrow> bool \<times> nat" where
  "utf8_chunk bs =
     (let b = byte_at bs 0; width = utf8_width b
      in if width = 1 then (True, 1)
         else if width = 0 \<or> \<not> second_ok b (byte_at bs 1) then (False, 1)
         else if width = 2 then (True, 2)
         else if \<not> is_cont (byte_at bs 2) then (False, 2)
         else if width = 3 then (True, 3)
         else if \<not> is_cont (byte_at bs 3) then (False, 3)
         else (True, 4))"

lemma utf8_chunk_pos: "0 < snd (utf8_chunk bs)"
  by (simp add: utf8_chunk_def Let_def)

lemma drop_utf8_chunk: "(valid, n) = utf8_chunk (b # bs) \<Longrightarrow> length (drop n (b # bs)) < length (b # bs)"
  using utf8_chunk_pos [of "b # bs"] by (simp add: prod_eq_iff)

definition REPLACEMENT :: bytes where
  "REPLACEMENT = [239, 191, 189]"

function (sequential) from_utf8_lossy :: "bytes \<Rightarrow> rstring" where
  "from_utf8_lossy [] = []"
| "from_utf8_lossy bs =
     (let (valid, n) = utf8_chunk bs
      in (if valid then take n bs else REPLACEMENT) @ from_utf8_lossy (drop n bs))"
  by pat_completeness auto
termination
  by (relation "measure length") (simp, simp only: in_measure drop_utf8_chunk)

function (sequential) valid_utf8 :: "bytes \<Rightarrow> bool" where
  "valid_utf8 [] = True"
| "valid_utf8 bs = (let (valid, n) = utf8_chunk bs in valid \<and> valid_utf8 (drop n bs))"
  by pat_completeness auto
termination
  by (relation "measure length") (simp, simp only: in_measure drop_utf8_chunk)

declare from_utf8_lossy.simps(2) [simp del] valid_utf8.simps(2) [simp del]

lemma valid_utf8_Cons_ascii [simp]: "unat b < 128 \<Longrightarrow> valid_utf8 (b # bs) = valid_utf8 bs"
  by (simp add: valid_utf8.simps utf8_chunk_def utf8_width_def byte_at_def Let_def)

lemma valid_utf8_ascii: "\<forall>b \<in> set bs. unat b < 128 \<Longrightarrow> valid_utf8 bs"
  by (induction bs) simp_all

lemma from_utf8_lossy_Cons_ascii [simp]:
  "unat b < 128 \<Longrightarrow> from_utf8_lossy (b # bs) = b # from_utf8_lossy bs"
  by (simp add: from_utf8_lossy.simps utf8_chunk_def utf8_width_def byte_at_def Let_def)

lemma from_utf8_lossy_ascii: "\<forall>b \<in> set bs. unat b < 128 \<Longrightarrow> from_utf8_lossy bs = bs"
  by (induction bs) simp_all


text \<open>The decoder looks only at the bytes of the chunk it takes.\<close>

lemma byte_at_take [simp]: "i < n \<Longrightarrow> n \<le> length bs \<Longrightarrow> byte_at (take n bs @ xs) i = byte_at bs i"
  by (simp add: byte_at_def nth_append)

lemma byte_at_pos: "byte_at bs i \<noteq> 0 \<Longrightarrow> i < length bs"
  by (simp add: byte_at_def split: if_splits)

lemma second_ok_pos: "second_ok b c \<Longrightarrow> c \<noteq> 0"
  by (auto simp: second_ok_def is_cont_def split: if_splits)

lemma utf8_width_cases: "utf8_width b \<in> {0, 1, 2, 3, 4}"
  by (simp add: utf8_width_def)

lemma utf8_chunk_True:
  "utf8_chunk bs = (True, n) \<longleftrightarrow>
     n = utf8_width (byte_at bs 0) \<and> 0 < n \<and> (1 < n \<longrightarrow> second_ok (byte_at bs 0) (byte_at bs 1)) \<and>
     (2 < n \<longrightarrow> is_cont (byte_at bs 2)) \<and> (3 < n \<longrightarrow> is_cont (byte_at bs 3))"
  using utf8_width_cases [of "byte_at bs 0"] by (auto simp: utf8_chunk_def Let_def)

lemma utf8_chunk_length:
  assumes "utf8_chunk (b # bs) = (True, n)"
  shows "n \<le> length (b # bs)"
proof -
  have second: "second_ok x (byte_at (b # bs) 1) \<Longrightarrow> 2 \<le> length (b # bs)" for x
    by (drule second_ok_pos, drule byte_at_pos) (simp add: Suc_le_eq)
  have cont: "is_cont (byte_at (b # bs) i) \<Longrightarrow> i < length (b # bs)" for i
    by (rule byte_at_pos) (auto simp: is_cont_def)
  consider "n = 1" | "n = 2" | "n = 3" | "n = 4"
    using assms utf8_width_cases [of "byte_at (b # bs) 0"] unfolding utf8_chunk_True by auto
  then show ?thesis
    using assms second cont [of 2] cont [of 3] unfolding utf8_chunk_True by cases auto
qed

lemma utf8_chunk_take:
  assumes "utf8_chunk (b # bs) = (True, n)"
  shows "utf8_chunk (take n (b # bs) @ xs) = (True, n)"
proof -
  note le = utf8_chunk_length [OF assms]
  have "byte_at (take n (b # bs) @ xs) i = byte_at (b # bs) i" if "i < n" for i
    using that le by (rule byte_at_take)
  with assms show ?thesis unfolding utf8_chunk_True by simp
qed

lemma valid_utf8_unfold:
  "bs \<noteq> [] \<Longrightarrow> valid_utf8 bs = (fst (utf8_chunk bs) \<and> valid_utf8 (drop (snd (utf8_chunk bs)) bs))"
  by (cases bs) (auto simp: valid_utf8.simps(2) split: prod.split)

lemma valid_utf8_take:
  assumes "utf8_chunk (b # bs) = (True, n)"
  shows "valid_utf8 (take n (b # bs) @ xs) = valid_utf8 xs"
proof -
  have "0 < n" using utf8_chunk_pos [of "b # bs"] assms by simp
  then have "take n (b # bs) @ xs \<noteq> []" by simp
  from valid_utf8_unfold [OF this] utf8_chunk_take [OF assms] utf8_chunk_length [OF assms]
  show ?thesis by simp
qed

lemma valid_utf8_replacement [simp]: "valid_utf8 (REPLACEMENT @ xs) = valid_utf8 xs"
  by (simp add: REPLACEMENT_def valid_utf8_unfold utf8_chunk_def utf8_width_def byte_at_def
      second_ok_def is_cont_def Let_def)

lemma valid_utf8_lossy: "valid_utf8 (from_utf8_lossy bs)"
proof (induction bs rule: from_utf8_lossy.induct)
  case (2 b bs)
  obtain valid n where chunk: "utf8_chunk (b # bs) = (valid, n)" by (meson surj_pair)
  with 2 [OF chunk [symmetric] refl] show ?case
    using valid_utf8_take by (auto simp: from_utf8_lossy.simps(2))
qed simp

lemma from_utf8_lossy_valid: "valid_utf8 bs \<Longrightarrow> from_utf8_lossy bs = bs"
proof (induction bs rule: from_utf8_lossy.induct)
  case (2 b bs)
  obtain valid n where chunk: "utf8_chunk (b # bs) = (valid, n)" by (meson surj_pair)
  with 2 show ?case
    by (auto simp: from_utf8_lossy.simps(2) valid_utf8.simps(2))
qed simp

section \<open>Trimming\<close>

text \<open>The characters of \<^verbatim>\<open>char::is_whitespace\<close>, as UTF-8.\<close>

definition whitespace :: "rstring list" where
  "whitespace =
     [[9], [10], [11], [12], [13], [32], [0xC2, 0x85], [0xC2, 0xA0], [0xE1, 0x9A, 0x80]] @
     map (\<lambda>b. [0xE2, 0x80, b])
       [0x80, 0x81, 0x82, 0x83, 0x84, 0x85, 0x86, 0x87, 0x88, 0x89, 0x8A, 0xA8, 0xA9, 0xAF] @
     [[0xE2, 0x81, 0x9F], [0xE3, 0x80, 0x80]]"

function strip_all :: "rstring list \<Rightarrow> rstring \<Rightarrow> rstring" where
  "strip_all ps s =
     (case find (\<lambda>p. p \<noteq> [] \<and> starts_with s p) ps of
        None \<Rightarrow> s
      | Some p \<Rightarrow> strip_all ps (drop (length p) s))"
  by pat_completeness auto
termination
proof (relation "measure (\<lambda>(ps, s). length s)")
  fix ps :: "rstring list" and s p
  assume "find (\<lambda>p. p \<noteq> [] \<and> starts_with s p) ps = Some p"
  then have "p \<noteq> [] \<and> starts_with s p" by (auto simp: find_Some_iff)
  then have "length p \<le> length s \<and> p \<noteq> []"
    by (auto simp: starts_with_def) (metis length_take min.cobounded1)
  then have "length s - length p < length s" by (cases p) auto
  then show "((ps, drop (length p) s), ps, s) \<in> measure (\<lambda>(ps, s). length s)"
    by simp
qed simp

declare strip_all.simps [simp del]

definition trim :: "rstring \<Rightarrow> rstring" where
  "trim s = rev (strip_all (map rev whitespace) (rev (strip_all whitespace s)))"

text \<open>\<^verbatim>\<open>s.replace(c, "")\<close> for an ASCII character.\<close>

definition remove_all :: "u8 \<Rightarrow> rstring \<Rightarrow> rstring" where
  "remove_all c s = filter (\<lambda>b. b \<noteq> c) s"

end
