(* ===== verification/Api.thy ===== *)
theory Api
  imports Text Servers
begin

text \<open>
  \<^verbatim>\<open>src/src/api.rs\<close>: the requests to the Pocket Relay server, with the constants of
  \<^verbatim>\<open>src/src/lib.rs\<close> and the context of \<^verbatim>\<open>src/src/ctx.rs\<close>. The crates \<^verbatim>\<open>url\<close>, \<^verbatim>\<open>reqwest\<close>,
  \<^verbatim>\<open>http\<close>, \<^verbatim>\<open>semver\<close> and \<^verbatim>\<open>serde\<close> are parameters, the fields of \<open>api_env\<close>: URLs are values of an
  abstract type \<open>'url\<close>, versions of \<open>'v\<close>, and a request is answered in a world \<open>'w\<close>. A response
  is its status and headers and a name for the body, which is still on the connection; an upgraded
  connection has a name too. The calls that the source marks with \<^verbatim>\<open>expect\<close> panic here.
\<close>

section \<open>Requests and responses\<close>

record TelemetryEvent =
  te_values :: "(rstring \<times> rstring) list"

datatype http_method = GET | POST

type_synonym header = "rstring \<times> rstring"
type_synonym api_error = string
type_synonym connection = nat

record 'url request =
  req_method :: http_method
  req_url :: 'url
  req_headers :: "header list"
  req_json :: "TelemetryEvent option"

record response =
  resp_status :: nat
  resp_headers :: "header list"
  resp_body :: nat

record 'v ServerDetails =
  sd_version :: 'v
  sd_ident :: "rstring option"
  sd_association :: "rstring option"
  sd_tunnel_port :: "u16 option"

record ('url, 'v, 'w) api_env =
  url_from_str :: "rstring \<Rightarrow> api_error + 'url"
  url_join :: "'url \<Rightarrow> rstring \<Rightarrow> api_error + 'url"
  url_port :: "'url \<Rightarrow> u16 option"
  url_set_scheme :: "'url \<Rightarrow> rstring \<Rightarrow> 'url"
  version_new :: "nat \<Rightarrow> nat \<Rightarrow> nat \<Rightarrow> 'v"
  version_lt :: "'v \<Rightarrow> 'v \<Rightarrow> bool"
  header_value_from_str :: "rstring \<Rightarrow> rstring option"
  request_send :: "'url request \<Rightarrow> 'w \<Rightarrow> (api_error + response) \<times> 'w"
  error_for_status :: "response \<Rightarrow> api_error + response"
  response_json :: "response \<Rightarrow> 'w \<Rightarrow> (api_error + 'v ServerDetails) \<times> 'w"
  response_bytes :: "response \<Rightarrow> 'w \<Rightarrow> (api_error + bytes) \<times> 'w"
  response_upgrade :: "response \<Rightarrow> 'w \<Rightarrow> (api_error + connection) \<times> 'w"

text \<open>\<^verbatim>\<open>src/src/ctx.rs\<close>; the HTTP client is the \<open>api_env\<close>.\<close>

record 'url ClientContext =
  base_url :: 'url
  association :: "rstring option"
  tunnel_port :: "u16 option"

section \<open>Constants\<close>

definition DETAILS_ENDPOINT :: rstring where "DETAILS_ENDPOINT = str ''api/server''"
definition TELEMETRY_ENDPOINT :: rstring where "TELEMETRY_ENDPOINT = str ''api/server/telemetry''"
definition UPGRADE_ENDPOINT :: rstring where "UPGRADE_ENDPOINT = str ''api/server/upgrade''"
definition TUNNEL_ENDPOINT :: rstring where "TUNNEL_ENDPOINT = str ''api/server/tunnel''"
definition SERVER_IDENT :: rstring where "SERVER_IDENT = str ''POCKET_RELAY_SERVER''"
definition ASSOCIATION :: rstring where "ASSOCIATION = str ''x-association''"
definition LEGACY_SCHEME :: rstring where "LEGACY_SCHEME = str ''x-pocket-relay-scheme''"
definition LEGACY_HOST :: rstring where "LEGACY_HOST = str ''x-pocket-relay-host''"
definition LEGACY_PORT :: rstring where "LEGACY_PORT = str ''x-pocket-relay-port''"
definition LEGACY_LOCAL_HTTP :: rstring where "LEGACY_LOCAL_HTTP = str ''x-pocket-relay-local-http''"

definition MIN_SERVER_VERSION :: "('url, 'v, 'w) api_env \<Rightarrow> 'v" where
  "MIN_SERVER_VERSION env = version_new env 0 5 0"

section \<open>Looking a server up\<close>

record ('url, 'v) LookupData =
  ld_url :: 'url
  ld_version :: 'v
  ld_association :: "rstring option"
  ld_tunnel_port :: "u16 option"

datatype 'v LookupError =
    InvalidHostTarget api_error
  | ConnectionFailed api_error
  | ErrorResponse api_error
  | InvalidResponse api_error
  | NotPocketRelay
  | ServerOutdated 'v 'v

text \<open>The text of the URL, and whether its scheme was inferred.\<close>

definition lookup_url_text :: "rstring \<Rightarrow> rstring \<times> bool" where
  "lookup_url_text host =
     (let inferred_scheme = \<not> starts_with host (str ''http://'') \<and> \<not> starts_with host (str ''https://'');
          url = (if inferred_scheme then str ''http://'' else []) @ host;
          url = (if ends_with url (str ''/'') then url else url @ str ''/'')
      in (url, inferred_scheme))"

definition lookup_url :: "('url, 'v, 'w) api_env \<Rightarrow> rstring \<Rightarrow> api_error + 'url" where
  "lookup_url env host =
     (let (text, inferred_scheme) = lookup_url_text host
      in (case url_from_str env text of
            Inl e \<Rightarrow> Inl e
          | Inr url \<Rightarrow>
              Inr (if url_port env url = Some 443 \<and> inferred_scheme
                   then url_set_scheme env url (str ''https'') else url)))"

definition check_details ::
  "('url, 'v, 'w) api_env \<Rightarrow> 'url \<Rightarrow> 'v ServerDetails \<Rightarrow> 'v LookupError + ('url, 'v) LookupData" where
  "check_details env url details =
     (if sd_ident details \<noteq> Some SERVER_IDENT then Inl NotPocketRelay
      else if version_lt env (sd_version details) (MIN_SERVER_VERSION env)
      then Inl (ServerOutdated (sd_version details) (MIN_SERVER_VERSION env))
      else Inr \<lparr>ld_url = url, ld_version = sd_version details,
        ld_association = sd_association details, ld_tunnel_port = sd_tunnel_port details\<rparr>)"

definition lookup_server ::
  "('url, 'v, 'w) api_env \<Rightarrow> rstring \<Rightarrow> 'w \<Rightarrow>
   ('v LookupError + ('url, 'v) LookupData) outcome \<times> 'w" where
  "lookup_server env host w =
     (case lookup_url env host of
        Inl e \<Rightarrow> (Ret (Inl (InvalidHostTarget e)), w)
      | Inr url \<Rightarrow>
          (case url_join env url DETAILS_ENDPOINT of
             Inl e \<Rightarrow> (Panic ''Failed to create server details URL'', w)
           | Inr info_url \<Rightarrow>
               (case request_send env \<lparr>req_method = GET, req_url = info_url,
                    req_headers = [(str ''accept'', str ''application/json'')], req_json = None\<rparr> w of
                  (Inl e, w) \<Rightarrow> (Ret (Inl (ConnectionFailed e)), w)
                | (Inr response, w) \<Rightarrow>
                    (case error_for_status env response of
                       Inl e \<Rightarrow> (Ret (Inl (ErrorResponse e)), w)
                     | Inr response \<Rightarrow>
                         (case response_json env response w of
                            (Inl e, w) \<Rightarrow> (Ret (Inl (InvalidResponse e)), w)
                          | (Inr details, w) \<Rightarrow> (Ret (check_details env url details), w))))))"

section \<open>Upgraded connections\<close>

datatype ServerStreamError = RequestFailed api_error | ServerError api_error | UpgradeFailure api_error

text \<open>The common end of both functions: send the request and upgrade the connection.\<close>

definition send_upgrade ::
  "('url, 'v, 'w) api_env \<Rightarrow> 'url \<Rightarrow> header list \<Rightarrow> 'w \<Rightarrow>
   (ServerStreamError + connection) \<times> 'w" where
  "send_upgrade env endpoint_url headers w =
     (case request_send env \<lparr>req_method = GET, req_url = endpoint_url, req_headers = headers,
          req_json = None\<rparr> w of
        (Inl e, w) \<Rightarrow> (Inl (RequestFailed e), w)
      | (Inr response, w) \<Rightarrow>
          (case error_for_status env response of
             Inl e \<Rightarrow> (Inl (ServerError e), w)
           | Inr response \<Rightarrow>
               (case response_upgrade env response w of
                  (Inl e, w) \<Rightarrow> (Inl (UpgradeFailure e), w)
                | (Inr io, w) \<Rightarrow> (Inr io, w))))"

definition association_header ::
  "('url, 'v, 'w) api_env \<Rightarrow> rstring \<Rightarrow> header list \<Rightarrow> header list outcome" where
  "association_header env token headers =
     (case header_value_from_str env token of
        None \<Rightarrow> Panic ''Invalid association token''
      | Some value \<Rightarrow> Ret (headers @ [(ASSOCIATION, value)]))"

definition stream_headers :: "header list" where
  "stream_headers =
     [(str ''connection'', str ''Upgrade''), (str ''upgrade'', str ''blaze''),
      (LEGACY_SCHEME, str ''http''), (LEGACY_HOST, str ''127.0.0.1''),
      (LEGACY_PORT, decimal (unat HTTP_PORT)), (LEGACY_LOCAL_HTTP, str ''true'')]"

definition create_server_stream ::
  "('url, 'v, 'w) api_env \<Rightarrow> 'url \<Rightarrow> rstring option \<Rightarrow> 'w \<Rightarrow>
   (ServerStreamError + connection) outcome \<times> 'w" where
  "create_server_stream env base token w =
     (case url_join env base UPGRADE_ENDPOINT of
        Inl e \<Rightarrow> (Panic ''Failed to create upgrade endpoint'', w)
      | Inr endpoint_url \<Rightarrow>
          (case (case token of None \<Rightarrow> Ret stream_headers
                 | Some t \<Rightarrow> association_header env t stream_headers) of
             Panic msg \<Rightarrow> (Panic msg, w)
           | Ret headers \<Rightarrow>
               (let (r, w) = send_upgrade env endpoint_url headers w in (Ret r, w))))"

definition tunnel_headers :: "header list" where
  "tunnel_headers = [(str ''connection'', str ''Upgrade''), (str ''upgrade'', str ''tunnel'')]"

definition create_server_tunnel ::
  "('url, 'v, 'w) api_env \<Rightarrow> 'url \<Rightarrow> rstring \<Rightarrow> 'w \<Rightarrow>
   (ServerStreamError + connection) outcome \<times> 'w" where
  "create_server_tunnel env base token w =
     (case url_join env base TUNNEL_ENDPOINT of
        Inl e \<Rightarrow> (Panic ''Failed to create tunnel endpoint'', w)
      | Inr endpoint_url \<Rightarrow>
          (case association_header env token tunnel_headers of
             Panic msg \<Rightarrow> (Panic msg, w)
           | Ret headers \<Rightarrow>
               (let (r, w) = send_upgrade env endpoint_url headers w in (Ret r, w))))"

section \<open>Telemetry events\<close>

definition publish_telemetry_event ::
  "('url, 'v, 'w) api_env \<Rightarrow> 'url \<Rightarrow> TelemetryEvent \<Rightarrow> 'w \<Rightarrow> (api_error + unit) outcome \<times> 'w" where
  "publish_telemetry_event env base event w =
     (case url_join env base TELEMETRY_ENDPOINT of
        Inl e \<Rightarrow> (Panic ''Failed to create telemetry endpoint'', w)
      | Inr endpoint_url \<Rightarrow>
          (case request_send env \<lparr>req_method = POST, req_url = endpoint_url, req_headers = [],
               req_json = Some event\<rparr> w of
             (Inl e, w) \<Rightarrow> (Ret (Inl e), w)
           | (Inr response, w) \<Rightarrow>
               (case error_for_status env response of
                  Inl e \<Rightarrow> (Ret (Inl e), w)
                | Inr _ \<Rightarrow> (Ret (Inr ()), w))))"

section \<open>Proxied requests\<close>

datatype ProxyError = ProxyRequestFailed api_error | ProxyBodyFailed api_error

record hyper_response =
  hyper_status :: nat
  hyper_headers :: "header list"
  hyper_body :: bytes

definition proxy_http_request ::
  "('url, 'v, 'w) api_env \<Rightarrow> 'url \<Rightarrow> 'w \<Rightarrow> (ProxyError + hyper_response) \<times> 'w" where
  "proxy_http_request env url w =
     (case request_send env \<lparr>req_method = GET, req_url = url, req_headers = [], req_json = None\<rparr> w of
        (Inl e, w) \<Rightarrow> (Inl (ProxyRequestFailed e), w)
      | (Inr response, w) \<Rightarrow>
          (case response_bytes env response w of
             (Inl e, w) \<Rightarrow> (Inl (ProxyBodyFailed e), w)
           | (Inr body, w) \<Rightarrow>
               (Inr \<lparr>hyper_status = resp_status response, hyper_headers = resp_headers response,
                  hyper_body = body\<rparr>, w)))"


section \<open>A scripted server\<close>

text \<open>
  For the witnesses: URLs are texts, joining appends, and every request is answered with status
  200 and noted in the world.
\<close>

definition scripted_api :: "(rstring, nat, rstring request list) api_env" where
  "scripted_api =
     \<lparr>url_from_str = Inr, url_join = (\<lambda>base path. Inr (base @ path)), url_port = (\<lambda>url. None),
      url_set_scheme = (\<lambda>url scheme. url), version_new = (\<lambda>major minor patch. minor),
      version_lt = (<), header_value_from_str = (\<lambda>s. if \<forall>b \<in> set s. 32 \<le> b then Some s else None),
      request_send = (\<lambda>request w. (Inr \<lparr>resp_status = 200, resp_headers = [], resp_body = 0\<rparr>, w @ [request])),
      error_for_status = Inr,
      response_json = (\<lambda>response w. (Inr \<lparr>sd_version = 5, sd_ident = Some SERVER_IDENT,
        sd_association = None, sd_tunnel_port = None\<rparr>, w)),
      response_bytes = (\<lambda>response w. (Inr [1, 2, 3], w)),
      response_upgrade = (\<lambda>response w. (Inr 0, w))\<rparr>"

section \<open>Properties\<close>

lemma starts_with_prefix: "starts_with s p \<longleftrightarrow> prefix p s"
  by (metis append_eq_conv_conj prefix_def starts_with_def)

lemma ends_with_suffix: "ends_with s p \<longleftrightarrow> suffix p s"
  by (simp add: ends_with_def starts_with_prefix suffix_to_prefix)

lemma lookup_url_text_eq:
  "lookup_url_text host =
     (let scheme = if prefix (str ''http://'') host \<or> prefix (str ''https://'') host then [] else str ''http://''
      in (scheme @ host @ (if suffix (str ''/'') (scheme @ host) then [] else str ''/''), scheme \<noteq> []))"
  by (simp add: lookup_url_text_def Let_def starts_with_prefix ends_with_suffix str_def)

lemma lookup_url_text_complete:
  "prefix (str ''http://'') url \<or> prefix (str ''https://'') url \<Longrightarrow> suffix (str ''/'') url \<Longrightarrow>
   lookup_url_text url = (url, False)"
  by (simp add: lookup_url_text_eq)

text \<open>C23: The text that is parsed as the server's URL is the host the user gave, with the scheme http in
  front exactly when it begins with neither http:// nor https://, which is reported as inferred,
  and with a slash at the end exactly when one is missing. So it always has a scheme and ends with
  a slash, so that endpoints are joined below its path; and a text that has both is left as it is.\<close>
theorem lookup_url_wellformed:
  "\<exists>scheme slash. lookup_url_text host = (scheme @ host @ slash, scheme \<noteq> []) \<and>
    scheme = (if prefix (str ''http://'') host \<or> prefix (str ''https://'') host then [] else str ''http://'') \<and>
    slash = (if suffix (str ''/'') (scheme @ host) then [] else str ''/'') \<and>
    (prefix (str ''http://'') (scheme @ host @ slash) \<or> prefix (str ''https://'') (scheme @ host @ slash)) \<and>
    suffix (str ''/'') (scheme @ host @ slash) \<and>
    lookup_url_text (scheme @ host @ slash) = (scheme @ host @ slash, False)"
proof -
  define scheme where "scheme = (if prefix (str ''http://'') host \<or> prefix (str ''https://'') host
    then [] else str ''http://'')"
  define slash where "slash = (if suffix (str ''/'') (scheme @ host) then [] else str ''/'')"
  have scheme: "prefix (str ''http://'') (scheme @ host @ slash) \<or> prefix (str ''https://'') (scheme @ host @ slash)"
    by (auto simp: scheme_def intro: prefix_order.trans [of _ host])
  have slash: "suffix (str ''/'') (scheme @ host @ slash)"
    by (auto simp: slash_def suffix_def simp flip: append_assoc)
  have "lookup_url_text host = (scheme @ host @ slash, scheme \<noteq> [])"
    unfolding lookup_url_text_eq Let_def scheme_def slash_def ..
  moreover note lookup_url_text_complete [OF scheme slash]
  ultimately show ?thesis
    using scheme slash scheme_def slash_def by blast
qed

end
