(* ===== verification/Reconnect.thy ===== *)
theory Reconnect
  imports Api
begin

text \<open>
  The reconnect loop of \<^verbatim>\<open>start_tunnel_server\<close> (\<^verbatim>\<open>src/src/servers/tunnel.rs\<close>) and
  \<^verbatim>\<open>start_udp_tunnel_server\<close> (\<^verbatim>\<open>src/src/servers/udp_tunnel.rs\<close>). It calls \<open>create\<close> and \<open>sleep\<close>
  on a state; a tunnel that lives forever is a \<open>create\<close> that answers \<^const>\<open>None\<close>, as is a loop that
  never gives up.
\<close>

section \<open>Reconnecting\<close>

definition MAX_ERROR_ATTEMPTS :: u8 where
  "MAX_ERROR_ATTEMPTS = 5"

text \<open>One value for each round: the error, the counter and the sleep in milliseconds.\<close>

partial_function (option) reconnect_loop ::
  "('s \<Rightarrow> (('e + unit) outcome \<times> 's) option) \<Rightarrow> (nat \<Rightarrow> 's \<Rightarrow> 's) \<Rightarrow>
   'e option \<Rightarrow> u8 \<Rightarrow> 's \<Rightarrow> ('e option outcome \<times> 's) option" where
  "reconnect_loop create sleep last_error attempt_errors s =
     (if attempt_errors < MAX_ERROR_ATTEMPTS then
        Option.bind (create s) (\<lambda>(r, s).
          case r of
            Panic msg \<Rightarrow> Some (Panic msg, s)
          | Ret (Inl err) \<Rightarrow>
              reconnect_loop create sleep (Some err) (attempt_errors + 1)
                (sleep (1000 * unat (attempt_errors + 1)) s)
          | Ret (Inr _) \<Rightarrow> reconnect_loop create sleep last_error 0 (sleep 1000 s))
      else Some (Ret last_error, s))"

text \<open>
  The two servers: nothing to do without a token (and, for UDP, without a host); else the loop,
  whose end is an error. \<open>create\<close> is the tunnel's \<^verbatim>\<open>create_tunnel\<close>.
\<close>

definition start_tunnel_server ::
  "(rstring \<Rightarrow> 's \<Rightarrow> ((io_error + unit) outcome \<times> 's) option) \<Rightarrow> (nat \<Rightarrow> 's \<Rightarrow> 's) \<Rightarrow>
   'url ClientContext \<Rightarrow> 's \<Rightarrow> ((io_error + unit) outcome \<times> 's) option" where
  "start_tunnel_server create_tunnel sleep ctx s =
     (case association ctx of
        None \<Rightarrow> Some (Ret (Inr ()), s)
      | Some token \<Rightarrow>
          map_option (\<lambda>(r, s).
              (and_then r (\<lambda>last_error.
                 Ret (Inl (case last_error of Some e \<Rightarrow> e | None \<Rightarrow> ''Reached error connect limit''))), s))
            (reconnect_loop (create_tunnel token) sleep None 0 s))"

definition start_udp_tunnel_server ::
  "(rstring \<Rightarrow> u16 \<Rightarrow> rstring \<Rightarrow> 's \<Rightarrow> (('e + unit) outcome \<times> 's) option) \<Rightarrow> ('e \<Rightarrow> io_error) \<Rightarrow>
   ('url \<Rightarrow> rstring option) \<Rightarrow> (nat \<Rightarrow> 's \<Rightarrow> 's) \<Rightarrow> 'url ClientContext \<Rightarrow> u16 \<Rightarrow> 's \<Rightarrow>
   ((io_error + unit) outcome \<times> 's) option" where
  "start_udp_tunnel_server create_tunnel other url_host sleep ctx port s =
     (case url_host (base_url ctx) of
        None \<Rightarrow> Some (Ret (Inr ()), s)
      | Some host \<Rightarrow>
          (case association ctx of
             None \<Rightarrow> Some (Ret (Inr ()), s)
           | Some token \<Rightarrow>
               map_option (\<lambda>(r, s).
                   (and_then r (\<lambda>last_error.
                      Ret (Inl (case map_option other last_error of
                        Some e \<Rightarrow> e | None \<Rightarrow> ''Reached error connect limit''))), s))
                 (reconnect_loop (create_tunnel host port token) sleep None 0 s)))"

section \<open>What the loops do\<close>

text \<open>The same calls, noting every attempt and every sleep.\<close>

datatype 'e retry_event = Failed 'e | Connected | Slept nat

definition log_create ::
  "('s \<Rightarrow> (('e + 'a) outcome \<times> 's) option) \<Rightarrow> 's \<times> 'e retry_event list \<Rightarrow>
   (('e + 'a) outcome \<times> ('s \<times> 'e retry_event list)) option" where
  "log_create create sl =
     map_option (\<lambda>(r, s).
         (r, (s, snd sl @ (case r of Ret (Inl e) \<Rightarrow> [Failed e] | Ret (Inr _) \<Rightarrow> [Connected] | Panic msg \<Rightarrow> []))))
       (create (fst sl))"

definition log_sleep :: "(nat \<Rightarrow> 's \<Rightarrow> 's) \<Rightarrow> nat \<Rightarrow> 's \<times> 'e retry_event list \<Rightarrow> 's \<times> 'e retry_event list" where
  "log_sleep sleep ms sl = (sleep ms (fst sl), snd sl @ [Slept ms])"

text \<open>A run of failures, with the delay after the i-th of them.\<close>

fun failures :: "(nat \<Rightarrow> nat) \<Rightarrow> 'e list \<Rightarrow> 'e retry_event list" where
  "failures delay [] = []"
| "failures delay (e # es) = Failed e # Slept (delay 0) # failures (\<lambda>i. delay (Suc i)) es"

lemma failures_snoc: "failures delay (es @ [e]) = failures delay es @ [Failed e, Slept (delay (length es))]"
  by (induction es arbitrary: delay) simp_all

text \<open>Since the start or the last connection there were only the failures \<open>es\<close>.\<close>

definition since_connected :: "'e list \<Rightarrow> 'e retry_event list \<Rightarrow> bool" where
  "since_connected es log \<longleftrightarrow>
     (\<exists>before. log = before @ failures (\<lambda>i. 1000 * (i + 1)) es \<and>
        (before = [] \<or> (\<exists>earlier. before = earlier @ [Connected, Slept 1000])))"

definition counts :: "'e option \<Rightarrow> u8 \<Rightarrow> 'e list \<Rightarrow> bool" where
  "counts last_error n es \<longleftrightarrow>
     unat n = length es \<and> length es \<le> 5 \<and> (es \<noteq> [] \<longrightarrow> last_error = Some (last es))"

lemma since_connected_fail:
  "since_connected es log \<Longrightarrow> since_connected (es @ [e]) (log @ [Failed e, Slept (1000 * (length es + 1))])"
  by (auto simp: since_connected_def failures_snoc)

lemma since_connected_ok: "since_connected [] (log @ [Connected, Slept 1000])"
  by (auto simp: since_connected_def)

lemma counts_less: "counts last_error n es \<Longrightarrow> n < MAX_ERROR_ATTEMPTS \<longleftrightarrow> length es < 5"
  by (simp add: counts_def MAX_ERROR_ATTEMPTS_def word_less_nat_alt)

lemma counts_Suc: "counts last_error n es \<Longrightarrow> length es < 5 \<Longrightarrow> counts (Some e) (n + 1) (es @ [e])"
  by (auto simp: counts_def unat_word_ariths)

text \<open>One round keeps the count and the log in step.\<close>

lemma reconnect_loop_log:
  "reconnect_loop cr slp last_error n sl = Some y \<Longrightarrow>
   cr = log_create create \<and> slp = log_sleep sleep \<longrightarrow>
   (\<forall>es. counts last_error n es \<and> since_connected es (snd sl) \<and> fst y = Ret final \<longrightarrow>
     (\<exists>es. length es = 5 \<and> final = Some (last es) \<and> since_connected es (snd (snd y))))"
proof (erule reconnect_loop.raw_induct [rotated, where P = "\<lambda>cr slp last_error n sl y.
   cr = log_create create \<and> slp = log_sleep sleep \<longrightarrow>
   (\<forall>es. counts last_error n es \<and> since_connected es (snd sl) \<and> fst y = Ret final \<longrightarrow>
     (\<exists>es. length es = 5 \<and> final = Some (last es) \<and> since_connected es (snd (snd y))))"],
   intro impI allI, elim conjE)
  fix loop cr slp le n sl y es
  assume IH: "\<And>cr slp le n sl y. loop cr slp le n sl = Some y \<Longrightarrow>
      cr = log_create create \<and> slp = log_sleep sleep \<longrightarrow>
      (\<forall>es. counts le n es \<and> since_connected es (snd sl) \<and> fst y = Ret final \<longrightarrow>
        (\<exists>es. length es = 5 \<and> final = Some (last es) \<and> since_connected es (snd (snd y))))"
    and step: "(if n < MAX_ERROR_ATTEMPTS then
        Option.bind (cr sl) (\<lambda>(r, s). case r of
            Ret (Inl err) \<Rightarrow> loop cr slp (Some err) (n + 1) (slp (1000 * unat (n + 1)) s)
          | Ret (Inr x) \<Rightarrow> loop cr slp le 0 (slp 1000 s)
          | Panic msg \<Rightarrow> Some (Panic msg, s))
      else Some (Ret le, sl)) = Some y"
    and fns: "cr = log_create create" "slp = log_sleep sleep"
    and n: "counts le n es" and log: "since_connected es (snd sl)" and y: "fst y = Ret final"
  show "\<exists>es. length es = 5 \<and> final = Some (last es) \<and> since_connected es (snd (snd y))"
  proof (cases "length es < 5")
    case False
    then have "length es = 5" "le = Some (last es)" using n by (auto simp: counts_def)
    moreover have "y = (Ret le, sl)" using step counts_less [OF n] False by simp
    ultimately show ?thesis using y log by auto
  next
    case True
    with step counts_less [OF n] obtain r s where r: "create (fst sl) = Some (r, s)"
      by (auto simp: fns log_create_def split: option.splits bind_splits)
    show ?thesis
    proof (cases r)
      case (Panic msg)
      with r step counts_less [OF n] True y show ?thesis by (auto simp: fns log_create_def)
    next
      case (Ret x)
      show ?thesis
      proof (cases x)
        case (Inl e)
        have "loop cr slp (Some e) (n + 1) (slp (1000 * unat (n + 1)) (s, snd sl @ [Failed e])) = Some y"
          using r Ret Inl step counts_less [OF n] True by (simp add: fns log_create_def)
        moreover have "unat (n + 1) = length es + 1"
          using counts_Suc [OF n True] by (simp add: counts_def)
        ultimately show ?thesis
          using IH [rule_format, where es = "es @ [e]"] counts_Suc [OF n True] since_connected_fail [OF log] y fns
          by (simp add: log_sleep_def)
      next
        case (Inr u)
        have "loop cr slp le 0 (slp 1000 (s, snd sl @ [Connected])) = Some y"
          using r Ret Inr step counts_less [OF n] True by (simp add: fns log_create_def)
        moreover have "counts le 0 []" by (simp add: counts_def)
        ultimately show ?thesis
          using IH [rule_format, where es = "[]"] since_connected_ok [of "snd sl"] y fns
          by (simp add: log_sleep_def)
      qed
    qed
  qed
qed


section \<open>Properties\<close>

text \<open>C13: The tunnel server keeps reconnecting and gives up only after five attempts in a row have
  failed, having waited one second longer after each of them, and its error is that of the last
  attempt; a connection in between resets the count and the delay.\<close>
theorem tunnel_server_gives_up:
  assumes "association ctx = Some token"
    and "start_tunnel_server (\<lambda>token. log_create (create token)) (log_sleep sleep) ctx (s, []) =
      Some (Ret r, (s', log))"
  shows "\<exists>es. length es = 5 \<and> r = Inl (last es) \<and> since_connected es log"
proof -
  from assms obtain final where
    loop: "reconnect_loop (log_create (create token)) (log_sleep sleep) None 0 (s, []) =
      Some (Ret final, (s', log))"
    and r: "r = Inl (case final of Some e \<Rightarrow> e | None \<Rightarrow> ''Reached error connect limit'')"
    by (auto simp: start_tunnel_server_def)
  have "counts None 0 []" "since_connected [] (snd (s, []))"
    by (simp_all add: counts_def since_connected_def)
  with reconnect_loop_log [OF loop, of "create token" sleep final] obtain es where
    "length es = 5" "final = Some (last es)" "since_connected es log"
    by auto
  with r show ?thesis by auto
qed

text \<open>A server that is up for one attempt out of three, twice, and then down for good.\<close>

definition flaky :: "rstring \<Rightarrow> nat \<Rightarrow> ((io_error + unit) outcome \<times> nat) option" where
  "flaky token n = Some (Ret (if n \<in> {2, 5} then Inr () else Inl (replicate n CHR ''e'')), n + 1)"

theorem tunnel_server_gives_up_witness:
  "\<exists>s' log. start_tunnel_server (\<lambda>token. log_create (flaky token)) (log_sleep (\<lambda>ms n. n))
      \<lparr>base_url = (), association = Some [], tunnel_port = None\<rparr> (0, []) =
      Some (Ret (Inl (''eeeeeeeeee'')), (s', log)) \<and>
    (\<exists>es. length es = 5 \<and> Inl (''eeeeeeeeee'') = (Inl (last es) :: io_error + unit) \<and>
      since_connected es log)"
proof -
  let ?ctx = "\<lparr>base_url = (), association = Some [], tunnel_port = None\<rparr>"
  have "\<exists>s' log. start_tunnel_server (\<lambda>token. log_create (flaky token)) (log_sleep (\<lambda>ms n. n)) ?ctx (0, []) =
      Some (Ret (Inl (''eeeeeeeeee'')), (s', log))"
    by (simp add: start_tunnel_server_def reconnect_loop.simps log_create_def log_sleep_def flaky_def
        MAX_ERROR_ATTEMPTS_def)
  with tunnel_server_gives_up [of ?ctx "[]" flaky "\<lambda>ms n. n" 0] show ?thesis
    by (metis (no_types, lifting) ClientContext.select_convs(2))
qed

text \<open>The state of the loop after any number of rounds that leave it going.\<close>

inductive rounds ::
  "('s \<Rightarrow> (('e + unit) outcome \<times> 's) option) \<Rightarrow> (nat \<Rightarrow> 's \<Rightarrow> 's) \<Rightarrow> u8 \<Rightarrow> 's \<Rightarrow> u8 \<Rightarrow> 's \<Rightarrow> bool"
  for create sleep where
  here: "rounds create sleep n s n s"
| failed: "create s = Some (Ret (Inl e), s1) \<Longrightarrow> n < 5 \<Longrightarrow>
    rounds create sleep (n + 1) (sleep (1000 * unat (n + 1)) s1) n' s' \<Longrightarrow> rounds create sleep n s n' s'"
| connected: "create s = Some (Ret (Inr u), s1) \<Longrightarrow> n < 5 \<Longrightarrow>
    rounds create sleep 0 (sleep 1000 s1) n' s' \<Longrightarrow> rounds create sleep n s n' s'"

lemma reconnect_loop_rounds:
  "rounds create sleep n s n' s' \<Longrightarrow>
   \<exists>last'. reconnect_loop create sleep last_error n s = reconnect_loop create sleep last' n' s'"
proof (induction arbitrary: last_error rule: rounds.induct)
  case (failed s e s1 n n' s')
  then show ?case
    using reconnect_loop.simps [of create sleep last_error n s] by (simp add: MAX_ERROR_ATTEMPTS_def)
next
  case (connected s u s1 n n' s')
  then show ?case
    using reconnect_loop.simps [of create sleep last_error n s] by (simp add: MAX_ERROR_ATTEMPTS_def)
qed blast

text \<open>Where every attempt fails, the loop returns, with the error of the attempt it made last.\<close>

lemma reconnect_loop_returns:
  assumes fails: "\<And>s. down s \<Longrightarrow> \<exists>e s'. create s = Some (Ret (Inl e), s') \<and> (\<forall>ms. down (sleep ms s'))"
    and "down s" and "unat (n :: u8) + Suc k = 5"
  shows "\<exists>s1 e s2. down s1 \<and> create s1 = Some (Ret (Inl e), s2) \<and>
    reconnect_loop create sleep last_error n s = Some (Ret (Some e), sleep 5000 s2)"
  using assms(2-)
proof (induction k arbitrary: n s last_error)
  case 0
  from fails [OF 0(1)] obtain e s' where s': "create s = Some (Ret (Inl e), s')" by blast
  have "n = 4" using 0(2) by (simp add: word_unat_eq_iff)
  with s' 0(1) have "reconnect_loop create sleep last_error n s = Some (Ret (Some e), sleep 5000 s')"
    by (simp add: reconnect_loop.simps MAX_ERROR_ATTEMPTS_def)
  with 0(1) s' show ?case by blast
next
  case (Suc k)
  then have n: "n < MAX_ERROR_ATTEMPTS" by (simp add: MAX_ERROR_ATTEMPTS_def word_less_nat_alt)
  from fails [OF Suc.prems(1)] obtain e s' where s': "create s = Some (Ret (Inl e), s')" "\<And>ms. down (sleep ms s')"
    by blast
  have "unat (n + 1) + Suc k = 5" using Suc.prems(2) by (simp add: unat_word_ariths)
  from Suc.IH [OF s'(2) this, of "Some e"] n s'(1) show ?case
    by (subst reconnect_loop.simps) simp
qed

text \<open>C14: A tunnel server that cannot be reached any more is given up: after any connections and
  failures that have not yet ended the server task, once every attempt fails, the task ends, and its
  error is the error of the attempt it made last, after a last wait of five seconds.\<close>
theorem tunnel_server_returns_when_down:
  assumes "association ctx = Some token"
    and "rounds (create token) sleep 0 s n s0" and "n < 5"
    and "\<And>s. down s \<Longrightarrow> \<exists>e s'. create token s = Some (Ret (Inl e), s') \<and> (\<forall>ms. down (sleep ms s'))"
    and "down s0"
  shows "\<exists>s1 e s2. down s1 \<and> create token s1 = Some (Ret (Inl e), s2) \<and>
    start_tunnel_server create sleep ctx s = Some (Ret (Inl e), sleep 5000 s2)"
proof -
  obtain last' where eq:
    "reconnect_loop (create token) sleep None 0 s = reconnect_loop (create token) sleep last' n s0"
    using reconnect_loop_rounds [OF assms(2)] by blast
  have "unat n + Suc (4 - unat n) = 5"
    using assms(3) by (simp add: word_less_nat_alt)
  from reconnect_loop_returns [where down = down and create = "create token", OF assms(4,5) this]
  obtain s1 e s2 where "down s1" "create token s1 = Some (Ret (Inl e), s2)"
    "reconnect_loop (create token) sleep last' n s0 = Some (Ret (Some e), sleep 5000 s2)"
    by blast
  with eq assms(1) show ?thesis by (auto simp: start_tunnel_server_def)
qed

lemma flaky_rounds: "rounds (flaky []) (\<lambda>ms n. n) 0 0 0 6"
proof -
  have "rounds (flaky []) (\<lambda>ms n. n) 0 6 0 6" by (rule rounds.here)
  then have "rounds (flaky []) (\<lambda>ms n. n) 2 5 0 6"
    by - (rule rounds.connected [where ?s1.0 = 6], simp_all add: flaky_def)
  then have "rounds (flaky []) (\<lambda>ms n. n) 1 4 0 6"
    by - (rule rounds.failed [where ?s1.0 = 5], simp_all add: flaky_def)
  then have "rounds (flaky []) (\<lambda>ms n. n) 0 3 0 6"
    by - (rule rounds.failed [where ?s1.0 = 4], simp_all add: flaky_def)
  then have "rounds (flaky []) (\<lambda>ms n. n) 2 2 0 6"
    by - (rule rounds.connected [where ?s1.0 = 3], simp_all add: flaky_def)
  then have "rounds (flaky []) (\<lambda>ms n. n) 1 1 0 6"
    by - (rule rounds.failed [where ?s1.0 = 2], simp_all add: flaky_def)
  then show ?thesis
    by - (rule rounds.failed [where ?s1.0 = 1], simp_all add: flaky_def)
qed

theorem tunnel_server_returns_when_down_witness:
  "\<exists>s1 e s2. 5 < s1 \<and> flaky [] s1 = Some (Ret (Inl e), s2) \<and>
    start_tunnel_server flaky (\<lambda>ms n. n) \<lparr>base_url = (), association = Some [], tunnel_port = None\<rparr> 0 =
      Some (Ret (Inl e), s2)"
  using tunnel_server_returns_when_down [where token = "[]" and down = "\<lambda>n. 5 < n" and create = flaky and
      sleep = "\<lambda>ms n. n" and ctx = "\<lparr>base_url = (), association = Some [], tunnel_port = None\<rparr>",
      OF _ flaky_rounds]
  by (simp add: flaky_def)

end
