(* ===== verification/Tunnel_Start.thy ===== *)
theory Tunnel_Start
  imports Pool_Start Reconnect
begin

text \<open>
  Creating a tunnel: \<^verbatim>\<open>create_tunnel\<close> of \<^verbatim>\<open>src/src/servers/tunnel.rs\<close> and of
  \<^verbatim>\<open>src/src/servers/udp_tunnel.rs\<close>, with the UDP handshake. A tunnel that is awaited is polled
  until it is ready; between two polls the world moves on by \<open>wake\<close>. The order in which the
  executor runs the starts of the sockets is \<open>schedule\<close>.
\<close>

section \<open>Running a tunnel\<close>

partial_function (option) tunnel_run ::
  "'w tunnel_env \<Rightarrow> ('w \<Rightarrow> 'w) \<Rightarrow> 'w Tunnel \<Rightarrow> (unit outcome \<times> 'w Tunnel) option" where
  "tunnel_run env wake t =
     Option.bind (tunnel_poll env t) (\<lambda>(r, t).
       case r of
         Panic msg \<Rightarrow> Some (Panic msg, t)
       | Ret (Ready _) \<Rightarrow> Some (Ret (), t)
       | Ret Pending \<Rightarrow> tunnel_run env wake (t\<lparr>world := wake (world t)\<rparr>))"

partial_function (option) udp_tunnel_run ::
  "'w udp_env \<Rightarrow> ('w \<Rightarrow> 'w) \<Rightarrow> 'w UdpTunnel \<Rightarrow> (unit outcome \<times> 'w UdpTunnel) option" where
  "udp_tunnel_run env wake t =
     Option.bind (udp_poll env t) (\<lambda>(r, t).
       case r of
         Panic msg \<Rightarrow> Some (Panic msg, t)
       | Ret (Ready _) \<Rightarrow> Some (Ret (), t)
       | Ret Pending \<Rightarrow> udp_tunnel_run env wake (t\<lparr>u_world := wake (u_world t)\<rparr>))"

section \<open>The TCP tunnel\<close>

record ('url, 'v, 's, 'w) tunnel_start_env =
  ts_api :: "('url, 'v, 'w) api_env"
  ts_net :: "('s, 'w) net_env"
  ts_schedule :: "'w \<Rightarrow> nat list"
  ts_framed :: "connection \<Rightarrow> 'w tunnel_env"
  ts_wake :: "'w \<Rightarrow> 'w"
  ts_other :: "ServerStreamError \<Rightarrow> io_error"

definition create_tunnel ::
  "('url, 'v, 's, 'w) tunnel_start_env \<Rightarrow> 'url ClientContext \<Rightarrow> rstring \<Rightarrow> ('s, 'w) pool_state \<Rightarrow>
   ((io_error + unit) outcome \<times> ('s, 'w) pool_state) option" where
  "create_tunnel env ctx token st =
     (case create_server_tunnel (ts_api env) (base_url ctx) token (pool_world st) of
        (Panic msg, w) \<Rightarrow> Some (Panic msg, st\<lparr>pool_world := w\<rparr>)
      | (Ret (Inl e), w) \<Rightarrow> Some (Ret (Inl (ts_other env e)), st\<lparr>pool_world := w\<rparr>)
      | (Ret (Inr io), w) \<Rightarrow>
          (case allocate_pool (ts_net env) (ts_schedule env w) (st\<lparr>pool_world := w\<rparr>) of
             (Pending, st) \<Rightarrow> None
           | (Ready (Inl e), st) \<Rightarrow> Some (Ret (Inl e), st)
           | (Ready (Inr hs), st) \<Rightarrow>
               map_option (\<lambda>(r, t). (and_then r (\<lambda>_. Ret (Inr ())), st\<lparr>pool_world := world t\<rparr>))
                 (tunnel_run (ts_framed env io) (ts_wake env)
                   (new_tunnel (map SocketHandle hs) (pool_world st)))))"

section \<open>The UDP handshake\<close>

datatype UdpTunnelError =
    HostIncompatible
  | ServerIncompatible
  | UdpBind io_error
  | UdpConnect io_error
  | HandshakeTimeout
  | GenericIo io_error
  | MalformedPacket string
  | UnexpectedPacket
  | AllocateSocketPool io_error

definition MAX_HANDSHAKE_ATTEMPTS :: u8 where
  "MAX_HANDSHAKE_ATTEMPTS = 5"

definition HANDSHAKE_TIMEOUT :: nat where
  "HANDSHAKE_TIMEOUT = 5"

text \<open>
  The awaits of \<^verbatim>\<open>handshake_tunnel\<close> run under \<^verbatim>\<open>timeout\<close>: \<open>hs_send\<close> and \<open>hs_recv\<close> answer \<^const>\<open>None\<close>
  when the time since the start of the attempt (given in seconds) is up first.
\<close>

record 'w handshake_env =
  hs_send :: "nat \<Rightarrow> bytes \<Rightarrow> 'w \<Rightarrow> (io_error + nat) option \<times> 'w"
  hs_recv :: "nat \<Rightarrow> nat \<Rightarrow> 'w \<Rightarrow> (io_error + bytes) option \<times> 'w"
  hs_serialize :: "u32 \<Rightarrow> UdpMessage \<Rightarrow> bytes"
  hs_deserialize :: "bytes \<Rightarrow> string + UdpMessage"

definition handshake_tunnel ::
  "'w handshake_env \<Rightarrow> rstring \<Rightarrow> 'w \<Rightarrow> (UdpTunnelError + u32) option \<times> 'w" where
  "handshake_tunnel env token w =
     (case hs_send env HANDSHAKE_TIMEOUT (hs_serialize env (- 1) (Initiate token)) w of
        (None, w) \<Rightarrow> (None, w)
      | (Some (Inl e), w) \<Rightarrow> (Some (Inl (GenericIo e)), w)
      | (Some (Inr _), w) \<Rightarrow>
          (case hs_recv env HANDSHAKE_TIMEOUT 65535 w of
             (None, w) \<Rightarrow> (None, w)
           | (Some (Inl e), w) \<Rightarrow> (Some (Inl (GenericIo e)), w)
           | (Some (Inr buffer), w) \<Rightarrow>
               (case hs_deserialize env buffer of
                  Inl e \<Rightarrow> (Some (Inl (MalformedPacket e)), w)
                | Inr (Initiated tunnel_id) \<Rightarrow> (Some (Inr tunnel_id), w)
                | Inr _ \<Rightarrow> (Some (Inl UnexpectedPacket), w))))"

text \<open>One attempt, with the timeout as an error.\<close>

definition handshake_attempt ::
  "'w handshake_env \<Rightarrow> rstring \<Rightarrow> 'w \<Rightarrow> (UdpTunnelError + u32) \<times> 'w" where
  "handshake_attempt env token w =
     (case handshake_tunnel env token w of
        (None, w) \<Rightarrow> (Inl HandshakeTimeout, w)
      | (Some r, w) \<Rightarrow> (r, w))"

lemma unat_u8_Suc: "n \<le> 5 \<Longrightarrow> unat ((n :: u8) + 1) = unat n + 1"
  by (simp add: unat_word_ariths word_le_nat_alt)

lemma handshake_less:
  assumes "\<not> MAX_HANDSHAKE_ATTEMPTS < n + 1"
  shows "6 - unat (n + 1 + 1) < 6 - unat (n + 1)"
proof -
  have "n + 1 \<le> 5" using assms by (simp add: MAX_HANDSHAKE_ATTEMPTS_def not_less)
  then have "unat (n + 1 + 1) = unat (n + 1) + 1" "unat (n + 1) \<le> 5"
    by (rule unat_u8_Suc, simp add: word_le_nat_alt)
  then show ?thesis by simp
qed

function handshake_loop ::
  "('s \<Rightarrow> ('e + 'a) \<times> 's) \<Rightarrow> (nat \<Rightarrow> 's \<Rightarrow> 's) \<Rightarrow> u8 \<Rightarrow> nat \<Rightarrow> 's \<Rightarrow> ('e + 'a) \<times> 's" where
  "handshake_loop attempt sleep retry_count retry_delay s =
     (case attempt s of
        (Inr value, s) \<Rightarrow> (Inr value, s)
      | (Inl last_err, s) \<Rightarrow>
          (let retry_count = retry_count + 1;
               s = sleep retry_delay s;
               retry_delay = retry_delay * 2
           in if retry_count > MAX_HANDSHAKE_ATTEMPTS then (Inl last_err, s)
              else handshake_loop attempt sleep retry_count retry_delay s))"
  by pat_completeness auto
termination
  by (relation "measure (\<lambda>(attempt, sleep, n, delay, s). 6 - unat (n + 1 :: u8))")
    (simp, simp only: in_measure case_prod_conv, rule handshake_less)

declare handshake_loop.simps [simp del]

definition attempt_tunnel_handshake ::
  "'w handshake_env \<Rightarrow> (nat \<Rightarrow> 'w \<Rightarrow> 'w) \<Rightarrow> rstring \<Rightarrow> 'w \<Rightarrow> (UdpTunnelError + u32) \<times> 'w" where
  "attempt_tunnel_handshake env sleep token w =
     handshake_loop (handshake_attempt env token) sleep 0 5 w"

section \<open>The UDP tunnel\<close>

record ('s, 'w) udp_start_env =
  us_bind :: "'w \<Rightarrow> (io_error + connection) \<times> 'w"
  us_connect :: "connection \<Rightarrow> rstring \<Rightarrow> u16 \<Rightarrow> 'w \<Rightarrow> (io_error + unit) \<times> 'w"
  us_handshake :: "connection \<Rightarrow> 'w handshake_env"
  us_sleep :: "nat \<Rightarrow> 'w \<Rightarrow> 'w"
  us_net :: "('s, 'w) net_env"
  us_schedule :: "'w \<Rightarrow> nat list"
  us_udp :: "connection \<Rightarrow> 'w udp_env"
  us_wake :: "'w \<Rightarrow> 'w"

definition create_udp_tunnel ::
  "('s, 'w) udp_start_env \<Rightarrow> rstring \<Rightarrow> u16 \<Rightarrow> rstring \<Rightarrow> ('s, 'w) pool_state \<Rightarrow>
   ((UdpTunnelError + unit) outcome \<times> ('s, 'w) pool_state) option" where
  "create_udp_tunnel env host port token st =
     (case us_bind env (pool_world st) of
        (Inl e, w) \<Rightarrow> Some (Ret (Inl (UdpBind e)), st\<lparr>pool_world := w\<rparr>)
      | (Inr socket, w) \<Rightarrow>
     (case us_connect env socket host port w of
        (Inl e, w) \<Rightarrow> Some (Ret (Inl (UdpConnect e)), st\<lparr>pool_world := w\<rparr>)
      | (Inr _, w) \<Rightarrow>
     (case attempt_tunnel_handshake (us_handshake env socket) (us_sleep env) token w of
        (Inl e, w) \<Rightarrow> Some (Ret (Inl e), st\<lparr>pool_world := w\<rparr>)
      | (Inr tunnel_id, w) \<Rightarrow>
     (case allocate_pool (us_net env) (us_schedule env w) (st\<lparr>pool_world := w\<rparr>) of
        (Pending, st) \<Rightarrow> None
      | (Ready (Inl e), st) \<Rightarrow> Some (Ret (Inl (AllocateSocketPool e)), st)
      | (Ready (Inr hs), st) \<Rightarrow>
          (let (now, w) = u_now (us_udp env socket) (pool_world st)
           in map_option (\<lambda>(r, t). (and_then r (\<lambda>_. Ret (Inr ())), st\<lparr>pool_world := u_world t\<rparr>))
                (udp_tunnel_run (us_udp env socket) (us_wake env)
                  (new_udp_tunnel tunnel_id (map UdpSocketHandle hs) now w)))))))"

section \<open>What the handshake does\<close>

text \<open>
  From the state \<open>s\<close> the attempts have failed with the errors \<open>es\<close>, each failure followed by its
  sleep, the first of \<open>delay\<close> and each of the others twice as long; that leads to \<open>s'\<close>.
\<close>

fun after_failures ::
  "('s \<Rightarrow> ('e + 'a) \<times> 's) \<Rightarrow> (nat \<Rightarrow> 's \<Rightarrow> 's) \<Rightarrow> nat \<Rightarrow> 'e list \<Rightarrow> 's \<Rightarrow> 's \<Rightarrow> bool" where
  "after_failures attempt sleep delay [] s s' \<longleftrightarrow> s' = s"
| "after_failures attempt sleep delay (e # es) s s' \<longleftrightarrow>
     (case attempt s of
        (Inl e', s1) \<Rightarrow> e' = e \<and> after_failures attempt sleep (2 * delay) es (sleep delay s1) s'
      | (Inr _, s1) \<Rightarrow> False)"

lemma handshake_loop_failures:
  assumes "handshake_loop attempt sleep n delay s = (r, s')" and "unat n \<le> 5"
  shows "\<exists>es s1. after_failures attempt sleep delay es s s1 \<and>
    (case r of Inl e \<Rightarrow> length es = 6 - unat n \<and> e = last es \<and> s' = s1
     | Inr v \<Rightarrow> length es < 6 - unat n \<and> attempt s1 = (Inr v, s'))"
  using assms
proof (induction "5 - unat n" arbitrary: n delay s rule: less_induct)
  case less
  note step = less.prems(1) [unfolded handshake_loop.simps [of _ _ n]]
  have le: "n \<le> 5" using less.prems(2) by (simp add: word_le_nat_alt)
  obtain q s1 where attempt: "attempt s = (q, s1)" by (meson surj_pair)
  show ?case
  proof (cases q)
    case (Inr v)
    with step attempt less.prems(2) show ?thesis
      by (intro exI [of _ "[]"] exI [of _ s]) auto
  next
    case (Inl e)
    show ?thesis
    proof (cases "n = 5")
      case True
      with step attempt Inl show ?thesis
        by (intro exI [of _ "[e]"] exI [of _ "sleep delay s1"]) (auto simp: MAX_HANDSHAKE_ATTEMPTS_def)
    next
      case False
      with le have lt: "unat n < 5"
        by (simp add: word_le_nat_alt word_unat_eq_iff)
      then have n1: "unat (n + 1) = unat n + 1" and more: "\<not> n + 1 > MAX_HANDSHAKE_ATTEMPTS"
        using unat_u8_Suc [OF le] by (simp_all add: MAX_HANDSHAKE_ATTEMPTS_def word_less_nat_alt)
      have loop: "handshake_loop attempt sleep (n + 1) (2 * delay) (sleep delay s1) = (r, s')"
        using step attempt Inl more by (simp add: Let_def mult.commute)
      have "5 - unat (n + 1) < 5 - unat n" "unat (n + 1) \<le> 5"
        using n1 lt by simp_all
      from less.hyps [OF this(1) loop this(2)] obtain es s2 where
        rest: "after_failures attempt sleep (2 * delay) es (sleep delay s1) s2"
        "case r of Inl e \<Rightarrow> length es = 6 - unat (n + 1) \<and> e = last es \<and> s' = s2
         | Inr v \<Rightarrow> length es < 6 - unat (n + 1) \<and> attempt s2 = (Inr v, s')" by blast
      with attempt Inl n1 lt show ?thesis
        by (intro exI [of _ "e # es"] exI [of _ s2]) (auto split: sum.splits)
    qed
  qed
qed

text \<open>C15: The UDP handshake is bounded and answers what its attempts answered. It makes at most six
  attempts (the documentation of its limit says five), waiting 5, 10, 20, ... seconds after each that
  fails, the last one included. It answers the tunnel id of the first attempt that succeeds, or,
  after six failures, the error of the last.\<close>
theorem handshake_bounded:
  assumes "attempt_tunnel_handshake env sleep token w = (r, w')"
  shows "\<exists>es w1. after_failures (handshake_attempt env token) sleep 5 es w w1 \<and>
    (case r of
       Inl e \<Rightarrow> length es = 6 \<and> e = last es \<and> w' = w1
     | Inr tunnel_id \<Rightarrow> length es \<le> 5 \<and> handshake_attempt env token w1 = (Inr tunnel_id, w'))"
proof -
  have "n < 6 \<longleftrightarrow> n \<le> 5" for n :: nat by auto
  with handshake_loop_failures [OF assms [unfolded attempt_tunnel_handshake_def]] show ?thesis
    by (cases r) simp_all
qed

text \<open>A server that answers the third handshake packet only; the world counts the packets and the time.\<close>

definition slow_server :: "(nat \<times> nat) handshake_env" where
  "slow_server =
     \<lparr>hs_send = (\<lambda>limit bs (n, time). (Some (Inr (length bs)), (n + 1, time))),
      hs_recv = (\<lambda>limit k (n, time). if n = 3 then (Some (Inr [7]), (n, time)) else (None, (n, time + limit))),
      hs_serialize = (\<lambda>i m. []),
      hs_deserialize = (\<lambda>bs. Inr (Initiated (if bs = [7] then 77 else 0)))\<rparr>"

lemma slow_server_handshake:
  "attempt_tunnel_handshake slow_server (\<lambda>secs (n, time). (n, time + secs)) [] (0, 0) = (Inr 77, (3, 25))"
  by (simp add: attempt_tunnel_handshake_def handshake_loop.simps handshake_attempt_def
      handshake_tunnel_def slow_server_def MAX_HANDSHAKE_ATTEMPTS_def HANDSHAKE_TIMEOUT_def)

theorem handshake_bounded_witness:
  "\<exists>es w1. after_failures (handshake_attempt slow_server []) (\<lambda>secs (n, time). (n, time + secs)) 5 es (0, 0) w1 \<and>
    length es \<le> 5 \<and> handshake_attempt slow_server [] w1 = (Inr 77, (3, 25))"
  using handshake_bounded [OF slow_server_handshake] by simp

section \<open>A created tunnel\<close>

text \<open>A live tunnel that is run to its end does not panic.\<close>

lemma tunnel_run_live:
  "tunnel_run env wake t = Some y \<Longrightarrow> framed_sends env \<longrightarrow> tunnel_live env t \<longrightarrow> fst y = Ret ()"
proof (erule tunnel_run.raw_induct [rotated, where P = "\<lambda>env wake t y.
    framed_sends env \<longrightarrow> tunnel_live env t \<longrightarrow> fst y = Ret ()"], intro impI)
  fix run env wake t y
  assume IH: "\<And>env wake t y. run env wake t = Some y \<Longrightarrow> framed_sends env \<longrightarrow> tunnel_live env t \<longrightarrow> fst y = Ret ()"
    and step: "Option.bind (tunnel_poll env t) (\<lambda>(r, t). case r of
        Ret (Ready _) \<Rightarrow> Some (Ret (), t)
      | Ret Pending \<Rightarrow> run env wake (t\<lparr>world := wake (world t)\<rparr>)
      | Panic msg \<Rightarrow> Some (Panic msg, t)) = Some y"
    and sends: "framed_sends env" and live: "tunnel_live env t"
  from step obtain r t' where poll: "tunnel_poll env t = Some (r, t')"
    by (auto split: bind_splits)
  from tunnel_poll_result [OF tunnel_live_inv [OF live sends] this]
  consider "r = Ret Pending" | "r = Ret (Ready ())" by blast
  then show "fst y = Ret ()"
  proof cases
    case 1
    with poll have "tunnel_live env (t'\<lparr>world := wake (world t')\<rparr>)"
      using tunnel_live.again [OF live] by simp
    with 1 poll step sends IH show ?thesis by fastforce
  next
    case 2
    with poll step show ?thesis by auto
  qed
qed

text \<open>C10: Creating and running a TCP tunnel can panic in two ways only, both before the tunnel runs: the
  server URL cannot be joined, or the association token is no header value. In particular the
  pool that is allocated always has the size the tunnel relies on, and the tunnel itself never
  panics, however long it runs.\<close>
theorem create_tunnel_panics:
  assumes "\<And>io. framed_sends (ts_framed env io)"
    and "create_tunnel env ctx token st = Some (Panic msg, st')"
  shows "(\<exists>e. url_join (ts_api env) (base_url ctx) TUNNEL_ENDPOINT = Inl e) \<or>
    header_value_from_str (ts_api env) token = None"
proof (rule ccontr)
  assume "\<not> ?thesis"
  then obtain url v where url: "url_join (ts_api env) (base_url ctx) TUNNEL_ENDPOINT = Inr url"
    "header_value_from_str (ts_api env) token = Some v"
    by (cases "url_join (ts_api env) (base_url ctx) TUNNEL_ENDPOINT") auto
  obtain r w where up: "send_upgrade (ts_api env) url (tunnel_headers @ [(ASSOCIATION, v)]) (pool_world st) = (r, w)"
    by (meson surj_pair)
  with url have create: "create_server_tunnel (ts_api env) (base_url ctx) token (pool_world st) = (Ret r, w)"
    by (simp add: create_server_tunnel_def association_header_def)
  with assms(2) obtain io where io: "r = Inr io"
    by (cases r) (auto simp: create_tunnel_def)
  obtain q st1 where alloc: "allocate_pool (ts_net env) (ts_schedule env w) (st\<lparr>pool_world := w\<rparr>) = (q, st1)"
    by (meson surj_pair)
  with create io assms(2) obtain hs where hs: "q = Ready (Inr hs)"
    by (cases q) (auto simp: create_tunnel_def split: sum.splits)
  with alloc have "length hs = SOCKET_POOL_SIZE"
    using allocate_pool_ok by blast
  then have live: "tunnel_live (ts_framed env io) (new_tunnel (map SocketHandle hs) (pool_world st1))"
    by (intro tunnel_live.start) simp
  from create io alloc hs assms(2) obtain p t' where
    run: "tunnel_run (ts_framed env io) (ts_wake env) (new_tunnel (map SocketHandle hs) (pool_world st1)) = Some (p, t')"
    and p: "and_then p (\<lambda>_. Ret (Inr ())) = (Panic msg :: (io_error + unit) outcome)"
    by (auto simp: create_tunnel_def)
  from tunnel_run_live [OF run] assms(1) live have "p = Ret ()" by simp
  with p show False by simp
qed

text \<open>A server whose token has a line break in it.\<close>

definition closed_tunnel :: "'w tunnel_env" where
  "closed_tunnel =
     \<lparr>rx_poll_recv = (\<lambda>w. (Ready None, w)), io_poll_ready = (\<lambda>w. (Ready (Inr ()), w)),
      io_start_send = (\<lambda>m w. (fst (tunnel_encode m []), w)), io_poll_flush = (\<lambda>w. (Ready (Inr ()), w)),
      io_poll_next = (\<lambda>w. (Ready None, w)), handle_send = (\<lambda>h m w. (True, w))\<rparr>"

definition closed_start :: "(rstring, nat, nat, rstring request list) tunnel_start_env" where
  "closed_start =
     \<lparr>ts_api = scripted_api,
      ts_net = \<lparr>net_bind = (\<lambda>port w. (Inr 0, w)), net_connect = (\<lambda>s target w. (Inr (), w))\<rparr>,
      ts_schedule = (\<lambda>w. [0, 0, 1, 1, 2, 2, 3, 3]), ts_framed = (\<lambda>io. closed_tunnel),
      ts_wake = (\<lambda>w. w), ts_other = (\<lambda>e. ''other'')\<rparr>"

theorem create_tunnel_panics_witness:
  "create_tunnel closed_start \<lparr>base_url = [], association = Some [10], tunnel_port = None\<rparr> [10]
      \<lparr>pool_world = [], pool_servers = no_servers, pool_tasks = []\<rparr> =
    Some (Panic ''Invalid association token'',
      \<lparr>pool_world = [], pool_servers = no_servers, pool_tasks = []\<rparr>) \<and>
    ((\<exists>e. url_join (ts_api closed_start) [] TUNNEL_ENDPOINT = Inl e) \<or>
      header_value_from_str (ts_api closed_start) [10] = None)"
proof -
  let ?ctx = "\<lparr>base_url = [], association = Some [10], tunnel_port = None\<rparr>"
  have run: "create_tunnel closed_start ?ctx [10] \<lparr>pool_world = [], pool_servers = no_servers, pool_tasks = []\<rparr> =
    Some (Panic ''Invalid association token'', \<lparr>pool_world = [], pool_servers = no_servers, pool_tasks = []\<rparr>)"
    by (simp add: create_tunnel_def create_server_tunnel_def association_header_def closed_start_def
        scripted_api_def)
  have "framed_sends (ts_framed closed_start io)" for io
    by (auto simp: framed_sends_def closed_start_def closed_tunnel_def)
  from create_tunnel_panics [OF this run] run show ?thesis by simp
qed

section \<open>The servers\<close>

text \<open>The reconnect loops of \<open>Reconnect\<close> on the two ways to create a tunnel.\<close>

definition pool_sleep :: "(nat \<Rightarrow> 'w \<Rightarrow> 'w) \<Rightarrow> nat \<Rightarrow> ('s, 'w) pool_state \<Rightarrow> ('s, 'w) pool_state" where
  "pool_sleep sleep ms st = st\<lparr>pool_world := sleep ms (pool_world st)\<rparr>"

definition tunnel_server ::
  "('url, 'v, 's, 'w) tunnel_start_env \<Rightarrow> (nat \<Rightarrow> 'w \<Rightarrow> 'w) \<Rightarrow> 'url ClientContext \<Rightarrow>
   ('s, 'w) pool_state \<Rightarrow> ((io_error + unit) outcome \<times> ('s, 'w) pool_state) option" where
  "tunnel_server env sleep ctx = start_tunnel_server (create_tunnel env ctx) (pool_sleep sleep) ctx"

definition udp_tunnel_server ::
  "('s, 'w) udp_start_env \<Rightarrow> (UdpTunnelError \<Rightarrow> io_error) \<Rightarrow> ('url \<Rightarrow> rstring option) \<Rightarrow>
   (nat \<Rightarrow> 'w \<Rightarrow> 'w) \<Rightarrow> 'url ClientContext \<Rightarrow> u16 \<Rightarrow>
   ('s, 'w) pool_state \<Rightarrow> ((io_error + unit) outcome \<times> ('s, 'w) pool_state) option" where
  "udp_tunnel_server env other url_host sleep =
     start_udp_tunnel_server (create_udp_tunnel env) other url_host (pool_sleep sleep)"

end
