(* ===== verification/Telemetry.thy ===== *)
theory Telemetry
  imports Api
begin

text \<open>
  The telemetry server of \<^verbatim>\<open>src/src/servers/telemetry.rs\<close>: reading a message from the game's
  stream, decoding its lines and publishing them. \<^verbatim>\<open>AsyncReadExt::read_exact\<close> is a parameter.
  \<open>overflow_checks\<close> says whether the build checks arithmetic (debug builds do, release builds
  wrap around).
\<close>

section \<open>Decoding\<close>

definition TLM3_KEY :: bytes where
  "TLM3_KEY = str ''The truth is back in style.''"

definition xor_cipher :: "bytes \<Rightarrow> bytes \<Rightarrow> bytes" where
  "xor_cipher input key =
     (if key = [] then []
      else map (\<lambda>i. xor (input ! i) (key ! (i mod length key)) mod 128) [0..<length input])"

definition tlm3 :: "bytes \<Rightarrow> rstring" where
  "tlm3 input =
     (case snd (splitn2 45 input) of
        Some line \<Rightarrow> xor_cipher line TLM3_KEY
      | None \<Rightarrow> debug_bytes input)"

definition key_value :: "bytes \<Rightarrow> (bytes \<times> bytes) option" where
  "key_value line =
     (case splitn2 61 line of (first, Some second) \<Rightarrow> Some (first, second) | (_, None) \<Rightarrow> None)"

definition decode_pair :: "bytes \<times> bytes \<Rightarrow> rstring \<times> rstring" where
  "decode_pair kv =
     (let key = from_utf8_lossy (fst kv)
      in (key, if key = str ''TLM3'' then tlm3 (snd kv) else debug_bytes (snd kv)))"

definition decode_lines :: "bytes \<Rightarrow> (rstring \<times> rstring) list" where
  "decode_lines buffer = map decode_pair (List.map_filter key_value (split_on 10 buffer))"

section \<open>Reading and publishing\<close>

definition content_length :: "bool \<Rightarrow> u16 \<Rightarrow> nat outcome" where
  "content_length overflow_checks len =
     (if overflow_checks \<and> len < 12 then Panic ''attempt to subtract with overflow''
      else Ret (unat (len - 12)))"

definition read_telemetry_event ::
  "bool \<Rightarrow> (nat \<Rightarrow> 'w \<Rightarrow> (io_error + bytes) \<times> 'w) \<Rightarrow> 'w \<Rightarrow> (io_error + TelemetryEvent) outcome \<times> 'w" where
  "read_telemetry_event overflow_checks read_exact w =
     (case read_exact 12 w of
        (Inl e, w) \<Rightarrow> (Ret (Inl e), w)
      | (Inr header, w) \<Rightarrow>
          (case content_length overflow_checks (u16_from_be_bytes (header ! 10) (header ! 11)) of
             Panic msg \<Rightarrow> (Panic msg, w)
           | Ret len \<Rightarrow>
               (case read_exact len w of
                  (Inl e, w) \<Rightarrow> (Ret (Inl e), w)
                | (Inr buffer, w) \<Rightarrow> (Ret (Inr \<lparr>te_values = decode_lines buffer\<rparr>), w))))"

text \<open>The task of one connection: it ends at the first failed read.\<close>

partial_function (option) telemetry_handle ::
  "bool \<Rightarrow> (nat \<Rightarrow> 'w \<Rightarrow> (io_error + bytes) \<times> 'w) \<Rightarrow>
   (TelemetryEvent \<Rightarrow> 'w \<Rightarrow> (api_error + unit) outcome \<times> 'w) \<Rightarrow> 'w \<Rightarrow> (unit outcome \<times> 'w) option" where
  "telemetry_handle overflow_checks read_exact publish w =
     (case read_telemetry_event overflow_checks read_exact w of
        (Panic msg, w) \<Rightarrow> Some (Panic msg, w)
      | (Ret (Inl e), w) \<Rightarrow> Some (Ret (), w)
      | (Ret (Inr event), w) \<Rightarrow>
          (case publish event w of
             (Panic msg, w) \<Rightarrow> Some (Panic msg, w)
           | (Ret r, w) \<Rightarrow> telemetry_handle overflow_checks read_exact publish w))"

text \<open>The server runs it with the publishing of \<open>Api\<close>, below the base URL of the context.\<close>

definition telemetry_connection ::
  "bool \<Rightarrow> (nat \<Rightarrow> 'w \<Rightarrow> (io_error + bytes) \<times> 'w) \<Rightarrow> ('url, 'v, 'w) api_env \<Rightarrow> 'url ClientContext \<Rightarrow>
   'w \<Rightarrow> (unit outcome \<times> 'w) option" where
  "telemetry_connection overflow_checks read_exact env ctx =
     telemetry_handle overflow_checks read_exact (publish_telemetry_event env (base_url ctx))"

section \<open>Lemmas\<close>

lemma mod_128: "(b :: u8) mod 128 = and b 127"
  using take_bit_eq_mod [of 7 b] take_bit_eq_mask [of 7 b] by (simp add: mask_eq_exp_minus_1)

lemma length_xor_cipher [simp]: "key \<noteq> [] \<Longrightarrow> length (xor_cipher input key) = length input"
  by (simp add: xor_cipher_def)

lemma unat_mod_128: "unat ((b :: u8) mod 128) < 128"
  by (simp add: unat_mod)

lemma xor_cancel_mod: "unat (t :: u8) < 128 \<Longrightarrow> xor (xor t k mod 128) k mod 128 = t"
proof -
  assume "unat t < 128"
  then have "unat (t mod 128) = unat t" by (simp add: unat_mod)
  then have "t mod 128 = t" by (simp only: word_unat_eq_iff)
  then have "t = and t 127" by (simp add: mod_128)
  moreover have "and (xor (and (xor t k) 127) k) 127 = and t 127"
    by (rule bit_word_eqI) (auto simp: bit_simps)
  ultimately show ?thesis by (simp add: mod_128)
qed

lemma xor_cipher_inverse:
  "\<forall>b \<in> set text. unat b < 128 \<Longrightarrow> key \<noteq> [] \<Longrightarrow> xor_cipher (xor_cipher text key) key = text"
  by (rule nth_equalityI) (simp_all add: xor_cipher_def xor_cancel_mod)

lemma decimal_ascii: "\<forall>b \<in> set (decimal n). unat b < 128"
proof (induction n rule: decimal.induct)
  case (1 n)
  have "unat (word_of_nat (48 + n mod 10) :: u8) = 48 + n mod 10"
    by (rule unat_word_of_nat_u8) simp
  with 1 show ?case
    by (subst decimal.simps) (auto simp del: of_nat_add of_nat_numeral)
qed

lemma comma_separated_ascii: "\<forall>b \<in> set (comma_separated bs). unat b < 128"
  by (induction bs rule: comma_separated.induct) (use decimal_ascii in auto)

lemma debug_bytes_utf8: "valid_utf8 (debug_bytes bs)"
  by (rule valid_utf8_ascii) (use comma_separated_ascii in \<open>auto simp: debug_bytes_def\<close>)

lemma xor_cipher_ascii: "\<forall>b \<in> set (xor_cipher input key). unat b < 128"
  by (auto simp: xor_cipher_def unat_mod_128)


text \<open>The line of the repository's test \<^verbatim>\<open>test_tlm3_line\<close>, recorded from the game.\<close>

lemma tlm3_known_line:
  "tlm3
     [64, 56, 97, 45, 100, 88, 85, 144, 68, 64, 49, 50, 71, 141, 82, 67, 144, 82, 81, 83, 91, 146,
      91, 65, 98, 60, 59, 45, 67, 54, 107, 135, 59, 74, 111, 56, 60, 50, 91, 30, 76, 135, 148, 29,
      43, 47, 55, 77, 84, 133, 128, 71, 78, 189, 55, 56, 73, 30, 100, 88, 85, 144, 70, 54, 51, 91,
      69, 27, 89, 67, 144, 82, 81, 83, 89, 147, 70, 33, 110, 63, 58, 86, 46, 41, 111, 142, 71, 33,
      99, 59, 60, 90, 22, 141, 82, 27, 78, 141, 80, 80, 87, 93, 22, 90, 95, 22, 75, 68, 95, 138,
      22, 90, 53, 85, 84, 145, 82, 134, 134, 128, 137, 29, 90, 85, 83, 135, 146, 144, 86, 80, 138,
      25, 68, 25, 128, 54, 47, 51, 94, 144, 104] =
     [48, 48, 48, 48, 48, 50, 68, 70, 47, 45, 59, 48, 48, 48, 48, 48, 48, 50, 50, 47, 66, 79, 79,
      84, 47, 83, 69, 83, 83, 47, 79, 76, 78, 71, 47, 118, 108, 110, 103, 61, 73, 78, 84, 38, 116,
      108, 110, 103, 61, 73, 78, 84, 44, 48, 48, 48, 48, 48, 50, 68, 70, 47, 45, 59, 48, 48, 48,
      48, 48, 48, 50, 51, 47, 79, 78, 76, 78, 47, 66, 76, 65, 90, 47, 68, 67, 79, 78, 47, 98, 101,
      114, 114, 61, 45, 50, 49, 52, 54, 54, 51, 49, 54, 56, 48, 38, 102, 115, 116, 97, 61, 49, 49,
      38, 116, 115, 116, 97, 61, 51, 38, 115, 101, 115, 115, 61, 112, 99, 119, 100, 106, 116, 79,
      67, 86, 112, 68, 0]"
  by code_simp

section \<open>Messages as the game writes them\<close>

text \<open>
  A message: ten bytes of header that are not looked at, the length of the whole message, and the
  \<^verbatim>\<open>key=value\<close> lines. A stream gives exactly the bytes that were written to it.
\<close>

fun telemetry_line :: "bytes \<times> bytes \<Rightarrow> bytes" where
  "telemetry_line (key, value) = key @ 61 # value"

fun telemetry_body :: "(bytes \<times> bytes) list \<Rightarrow> bytes" where
  "telemetry_body [] = []"
| "telemetry_body [kv] = telemetry_line kv"
| "telemetry_body (kv # kvs) = telemetry_line kv @ 10 # telemetry_body kvs"

type_synonym telemetry_message = "bytes \<times> (bytes \<times> bytes) list"

definition telemetry_message :: "telemetry_message \<Rightarrow> bytes" where
  "telemetry_message m =
     (let body = telemetry_body (snd m)
      in fst m @ u16_to_be_bytes (word_of_nat (12 + length body)) @ body)"

definition telemetry_event :: "telemetry_message \<Rightarrow> TelemetryEvent" where
  "telemetry_event m = \<lparr>te_values =
     map (\<lambda>(key, value). (key, if key = str ''TLM3'' then tlm3 value else debug_bytes value)) (snd m)\<rparr>"

definition message_ok :: "telemetry_message \<Rightarrow> bool" where
  "message_ok m \<longleftrightarrow>
     length (fst m) = 10 \<and> 12 + length (telemetry_body (snd m)) < 65536 \<and>
     (\<forall>(key, value) \<in> set (snd m).
        valid_utf8 key \<and> 10 \<notin> set key \<and> 61 \<notin> set key \<and> 10 \<notin> set value)"

definition byte_stream :: "nat \<Rightarrow> bytes \<Rightarrow> (io_error + bytes) \<times> bytes" where
  "byte_stream n s = (if n \<le> length s then (Inr (take n s), drop n s) else (Inl ''unexpected eof'', s))"

lemma tlm3_utf8: "valid_utf8 (tlm3 input)"
  by (auto simp: tlm3_def debug_bytes_utf8 valid_utf8_ascii xor_cipher_ascii split: option.split)

lemma map_filter_simps:
  "List.map_filter f [] = []"
  "List.map_filter f (x # xs) = (case f x of None \<Rightarrow> List.map_filter f xs | Some y \<Rightarrow> y # List.map_filter f xs)"
  by (simp_all add: List.map_filter_def split: option.split)

lemma split_telemetry_body:
  "\<forall>(key, value) \<in> set kvs. 10 \<notin> set key \<and> 61 \<notin> set key \<and> 10 \<notin> set value \<Longrightarrow>
   List.map_filter key_value (split_on 10 (telemetry_body kvs)) = kvs"
proof (induction kvs rule: telemetry_body.induct)
  case 1
  show ?case by (simp add: map_filter_simps key_value_def)
next
  case (2 kv)
  then show ?case
    by (cases kv) (simp add: split_on_last map_filter_simps key_value_def splitn2_append)
next
  case (3 kv kv' kvs)
  obtain key "value" where kv: "kv = (key, value)" by (cases kv)
  have "split_on 10 ((key @ 61 # value) @ 10 # telemetry_body (kv' # kvs)) =
      (key @ 61 # value) # split_on 10 (telemetry_body (kv' # kvs))"
    by (rule split_on_append) (use 3(2) kv in simp)
  with 3 kv show ?case
    by (simp add: map_filter_simps key_value_def splitn2_append)
qed

lemma decode_telemetry_body:
  assumes "message_ok m"
  shows "decode_lines (telemetry_body (snd m)) = te_values (telemetry_event m)"
proof -
  have "List.map_filter key_value (split_on 10 (telemetry_body (snd m))) = snd m"
    by (rule split_telemetry_body) (use assms in \<open>auto simp: message_ok_def\<close>)
  moreover have "decode_pair kv = (case kv of (key, value) \<Rightarrow>
      (key, if key = str ''TLM3'' then tlm3 value else debug_bytes value))" if "kv \<in> set (snd m)" for kv
    using assms that by (auto simp: decode_pair_def message_ok_def from_utf8_lossy_valid Let_def)
  ultimately show ?thesis
    by (simp add: decode_lines_def telemetry_event_def)
qed

lemma content_length_message:
  "12 + n < 65536 \<Longrightarrow> content_length overflow_checks (word_of_nat (12 + n)) = Ret n"
proof -
  assume n: "12 + n < 65536"
  then have "unat (word_of_nat (12 + n) :: u16) = 12 + n"
    by (rule unat_word_of_nat_u16)
  moreover from this have "\<not> (word_of_nat (12 + n) :: u16) < 12"
    by (simp add: word_less_nat_alt del: of_nat_add of_nat_numeral)
  ultimately show ?thesis
    by (simp add: content_length_def unat_sub not_less [symmetric] del: of_nat_add of_nat_numeral)
qed

lemma read_message:
  assumes "message_ok m"
    and "\<And>n s. read_exact n (s, p) = (fst (byte_stream n s), (snd (byte_stream n s), p))"
  shows "read_telemetry_event overflow_checks read_exact (telemetry_message m @ rest, p) =
    (Ret (Inr (telemetry_event m)), (rest, p))"
proof -
  let ?body = "telemetry_body (snd m)"
  let ?w = "word_of_nat (12 + length ?body) :: u16"
  obtain hi lo where be: "u16_to_be_bytes ?w = [hi, lo]" and w: "u16_from_be_bytes hi lo = ?w"
    using u16_be_round_trip [of ?w] by (simp add: u16_to_be_bytes_def)
  have len: "length (fst m) = 10" and small: "12 + length ?body < 65536"
    using assms(1) by (auto simp: message_ok_def)
  have header: "byte_stream 12 (telemetry_message m @ rest) = (Inr (fst m @ [hi, lo]), ?body @ rest)"
    using len be by (simp add: byte_stream_def telemetry_message_def Let_def del: of_nat_add of_nat_numeral)
  have body: "byte_stream (length ?body) (?body @ rest) = (Inr ?body, rest)"
    by (simp add: byte_stream_def)
  have "content_length overflow_checks (u16_from_be_bytes hi lo) = Ret (length ?body)"
    unfolding w by (rule content_length_message [OF small])
  then show ?thesis
    using len decode_telemetry_body [OF assms(1)] header body
    by (simp add: read_telemetry_event_def assms(2) nth_append)
qed

section \<open>A connection\<close>

lemma telemetry_handle_all:
  assumes "\<forall>m \<in> set ms. message_ok m"
    and "\<And>n s p. read_exact n (s, p) = (fst (byte_stream n s), (snd (byte_stream n s), p))"
    and "\<And>event s p. publish event (s, p) = (Ret (answer event p), (s, p @ [event]))"
  shows "telemetry_handle overflow_checks read_exact publish (concat (map telemetry_message ms), p) =
    Some (Ret (), ([], p @ map telemetry_event ms))"
  using assms(1)
proof (induction ms arbitrary: p)
  case Nil
  show ?case
    by (subst telemetry_handle.simps) (simp add: read_telemetry_event_def assms(2) byte_stream_def)
next
  case (Cons m ms)
  then show ?case
    by (subst telemetry_handle.simps) (simp add: read_message [OF _ assms(2)] assms(3))
qed

text \<open>
  With the publishing of \<open>Api\<close>: one POST of the event to the telemetry endpoint for each message,
  whatever the server answers, as long as the endpoint's URL can be built (else it panics).
\<close>

lemma telemetry_connection_posts_all:
  assumes "\<forall>m \<in> set ms. message_ok m"
    and "\<And>n s p. read_exact n (s, p) = (fst (byte_stream n s), (snd (byte_stream n s), p))"
    and "url_join env (base_url ctx) TELEMETRY_ENDPOINT = Inr url"
    and "\<And>event s p. request_send env
      \<lparr>req_method = POST, req_url = url, req_headers = [], req_json = Some event\<rparr> (s, p) =
      (answer event p, (s, p @ [event]))"
  shows "telemetry_connection overflow_checks read_exact env ctx (concat (map telemetry_message ms), p) =
    Some (Ret (), ([], p @ map telemetry_event ms))"
  unfolding telemetry_connection_def using assms(1,2)
proof (rule telemetry_handle_all)
  fix event s p
  show "publish_telemetry_event env (base_url ctx) event (s, p) =
      (Ret (case answer event p of Inl e \<Rightarrow> Inl e
        | Inr response \<Rightarrow> (case error_for_status env response of Inl e \<Rightarrow> Inl e | Inr _ \<Rightarrow> Inr ())),
       (s, p @ [event]))"
    using assms(3,4) by (auto simp: publish_telemetry_event_def split: sum.splits)
qed

section \<open>Properties\<close>

text \<open>C19: The telemetry server forgets nothing: from a stream of well-formed messages it publishes one
  event for each message, in order, with one value for each line, even when publishing fails, and
  ends when the game closes the stream.\<close>
theorem telemetry_publishes_all:
  assumes "\<forall>m \<in> set ms. message_ok m"
    and "\<And>n s p. read_exact n (s, p) = (fst (byte_stream n s), (snd (byte_stream n s), p))"
    and "\<And>event s p. publish event (s, p) = (Ret (answer event p), (s, p @ [event]))"
  shows "telemetry_handle overflow_checks read_exact publish (concat (map telemetry_message ms), p) =
    Some (Ret (), ([], p @ map telemetry_event ms))"
  using assms by (rule telemetry_handle_all)

text \<open>A message with a plain line and an enciphered one, and a publisher that always fails.\<close>

definition sample_message :: telemetry_message where
  "sample_message =
     (replicate 10 0, [(str ''A'', [49, 50]), (str ''TLM3'', 64 # 45 # xor_cipher (str ''hi'') TLM3_KEY)])"

definition note_failing ::
  "TelemetryEvent \<Rightarrow> bytes \<times> TelemetryEvent list \<Rightarrow>
   (api_error + unit) outcome \<times> (bytes \<times> TelemetryEvent list)" where
  "note_failing = (\<lambda>event (s, p). (Ret (Inl ''refused''), (s, p @ [event])))"

definition pair_stream :: "nat \<Rightarrow> bytes \<times> 'p \<Rightarrow> (io_error + bytes) \<times> (bytes \<times> 'p)" where
  "pair_stream = (\<lambda>n (s, p). (fst (byte_stream n s), (snd (byte_stream n s), p)))"

lemma sample_cipher: "xor_cipher [104, 105] TLM3_KEY = [60, 1]"
  by code_simp

lemma sample_message_ok: "message_ok sample_message"
  by (simp add: message_ok_def sample_message_def sample_cipher str_def)

theorem telemetry_publishes_all_witness:
  "telemetry_handle True pair_stream note_failing
      (concat (map telemetry_message [sample_message, sample_message]), []) =
    Some (Ret (), ([], [] @ map telemetry_event [sample_message, sample_message]))"
  by (rule telemetry_publishes_all [where answer = "\<lambda>event p. Inl ''refused''"])
    (simp_all add: sample_message_ok pair_stream_def note_failing_def)

text \<open>C20: Every string of a decoded event is valid UTF-8, whatever bytes the game sends: the unchecked
  conversion of the deciphered TLM3 line is sound.\<close>
theorem telemetry_strings_utf8:
  assumes "read_telemetry_event overflow_checks read_exact w = (Ret (Inr event), w')"
    and "(key, value) \<in> set (te_values event)"
  shows "valid_utf8 key \<and> valid_utf8 value"
proof -
  from assms(1) obtain buffer where "event = \<lparr>te_values = decode_lines buffer\<rparr>"
    by (auto simp: read_telemetry_event_def split: prod.splits sum.splits outcome.splits)
  with assms(2) show ?thesis
    by (auto simp: decode_lines_def decode_pair_def valid_utf8_lossy tlm3_utf8 debug_bytes_utf8 Let_def)
qed

theorem telemetry_strings_utf8_witness:
  "\<exists>value. read_telemetry_event True pair_stream (telemetry_message sample_message @ [], ()) =
      (Ret (Inr (telemetry_event sample_message)), ([], ())) \<and>
    (str ''TLM3'', value) \<in> set (te_values (telemetry_event sample_message)) \<and>
    valid_utf8 (str ''TLM3'') \<and> valid_utf8 value"
proof -
  have read: "read_telemetry_event True pair_stream (telemetry_message sample_message @ [], ()) =
      (Ret (Inr (telemetry_event sample_message)), ([], ()))"
    by (rule read_message [OF sample_message_ok]) (simp add: pair_stream_def)
  have member: "(str ''TLM3'', tlm3 (64 # 45 # xor_cipher (str ''hi'') TLM3_KEY)) \<in>
      set (te_values (telemetry_event sample_message))"
    by (simp add: telemetry_event_def sample_message_def str_def)
  from telemetry_strings_utf8 [OF read member] read member show ?thesis by blast
qed

text \<open>C21: The TLM3 cipher is its own inverse on ASCII text, for any key that is not empty; and what was
  enciphered with the key of the game and prefixed with a tag is deciphered to the text.\<close>
theorem tlm3_inverts_cipher:
  assumes "\<forall>b \<in> set text. unat b < 128" and "key \<noteq> []" and "45 \<notin> set tag"
  shows "xor_cipher (xor_cipher text key) key = text \<and>
    tlm3 (tag @ 45 # xor_cipher text (str ''The truth is back in style.'')) = text"
proof -
  have "str ''The truth is back in style.'' \<noteq> []" by (simp add: str_def)
  with assms show ?thesis
    by (simp add: tlm3_def splitn2_append xor_cipher_inverse TLM3_KEY_def)
qed

theorem tlm3_inverts_cipher_witness:
  "xor_cipher (xor_cipher (str ''BOOT/SESS'') [1, 2, 200]) [1, 2, 200] = str ''BOOT/SESS'' \<and>
   tlm3 ([64, 56, 97] @ 45 # xor_cipher (str ''BOOT/SESS'') (str ''The truth is back in style.'')) =
     str ''BOOT/SESS''"
  by (rule tlm3_inverts_cipher) (simp_all add: str_def)

text \<open>A message whose length field is below the header size is not rejected: a build that checks
  arithmetic panics, and a release build waits for more than 65,000 bytes that the message does
  not have.\<close>
theorem telemetry_short_length:
  assumes "len < 12"
  shows "content_length True len = Panic ''attempt to subtract with overflow'' \<and>
    content_length False len = Ret (65524 + unat len)"
  using assms by (simp add: content_length_def unat_sub_if' word_less_nat_alt)

theorem telemetry_short_length_witness:
  "content_length True 7 = Panic ''attempt to subtract with overflow'' \<and>
    content_length False 7 = Ret (65524 + unat (7 :: u16))"
  by (rule telemetry_short_length) simp

end
