(* ===== verification/Qos.thy ===== *)
theory Qos
  imports Text Servers
begin

text \<open>
  The Quality of Service server of \<^verbatim>\<open>src/src/servers/qos.rs\<close>: finding out the public address, its
  cache, and the reply. \<^verbatim>\<open>reqwest\<close>, \<^verbatim>\<open>local_ip_address\<close>, the clock and the socket are parameters on
  a world; times are seconds. The cache is guarded by an \<^verbatim>\<open>RwLock\<close>: checking it under the read
  lock is one step and refreshing it under the write lock, which is held throughout, another.
\<close>

section \<open>Addresses\<close>

type_synonym ipv4 = "u8 \<times> u8 \<times> u8 \<times> u8"

datatype ip_addr = IpV4 ipv4 | IpV6 nat

datatype socket_addr = SocketV4 ipv4 u16 | SocketV6 nat u16

definition UNSPECIFIED :: ipv4 where
  "UNSPECIFIED = (0, 0, 0, 0)"

fun octets :: "ipv4 \<Rightarrow> bytes" where
  "octets (a, b, c, d) = [a, b, c, d]"

fun addr_port :: "socket_addr \<Rightarrow> u16" where
  "addr_port (SocketV4 ip port) = port"
| "addr_port (SocketV6 ip port) = port"

text \<open>\<^verbatim>\<open>Ipv4Addr::from_str\<close>: four decimal numbers of at most three digits without leading zeros.\<close>

definition is_digit :: "u8 \<Rightarrow> bool" where
  "is_digit b \<longleftrightarrow> 48 \<le> b \<and> b \<le> 57"

definition digits_value :: "bytes \<Rightarrow> nat" where
  "digits_value bs = foldl (\<lambda>n b. 10 * n + (unat b - 48)) 0 bs"

definition parse_octet :: "bytes \<Rightarrow> u8 option" where
  "parse_octet bs =
     (if bs \<noteq> [] \<and> length bs \<le> 3 \<and> list_all is_digit bs \<and> (length bs = 1 \<or> hd bs \<noteq> 48) \<and>
         digits_value bs < 256
      then Some (word_of_nat (digits_value bs)) else None)"

definition parse_ipv4 :: "rstring \<Rightarrow> ipv4 option" where
  "parse_ipv4 s =
     (case map parse_octet (split_on 46 s) of
        [Some a, Some b, Some c, Some d] \<Rightarrow> Some (a, b, c, d)
      | _ \<Rightarrow> None)"

section \<open>The public address\<close>

record 'w qos_env =
  qos_now :: "'w \<Rightarrow> nat \<times> 'w"
  qos_get :: "rstring \<Rightarrow> 'w \<Rightarrow> (string + nat) \<times> 'w"
  qos_text :: "nat \<Rightarrow> 'w \<Rightarrow> (string + rstring) \<times> 'w"
  qos_local_ip :: "'w \<Rightarrow> (string + ip_addr) \<times> 'w"
  qos_send_to :: "bytes \<Rightarrow> socket_addr \<Rightarrow> 'w \<Rightarrow> (io_error + nat) \<times> 'w"

datatype PublicAddrCache = Unset | Set ipv4 nat

definition ADDR_CACHE_TIME :: nat where
  "ADDR_CACHE_TIME = 60 * 30"

definition ip_services :: "rstring list" where
  "ip_services = [str ''https://api.ipify.org/'', str ''https://ipv4.icanhazip.com/'']"

definition parse_answer :: "rstring \<Rightarrow> ipv4 option" where
  "parse_answer response = parse_ipv4 (remove_all 10 (trim response))"

fun try_services :: "'w qos_env \<Rightarrow> rstring list \<Rightarrow> 'w \<Rightarrow> ipv4 option \<times> 'w" where
  "try_services env [] w = (None, w)"
| "try_services env (address # addresses) w =
     (case qos_get env address w of
        (Inl e, w) \<Rightarrow> try_services env addresses w
      | (Inr response, w) \<Rightarrow>
          (case qos_text env response w of
             (Inl e, w) \<Rightarrow> try_services env addresses w
           | (Inr response, w) \<Rightarrow>
               (case parse_answer response of
                  Some parsed \<Rightarrow> (Some parsed, w)
                | None \<Rightarrow> try_services env addresses w)))"

definition find_address :: "'w qos_env \<Rightarrow> 'w \<Rightarrow> ipv4 option \<times> 'w" where
  "find_address env w =
     (case try_services env ip_services w of
        (Some value, w) \<Rightarrow> (Some value, w)
      | (None, w) \<Rightarrow>
          (case qos_local_ip env w of
             (Inr (IpV4 addr), w) \<Rightarrow> (Some addr, w)
           | (_, w) \<Rightarrow> (None, w)))"

text \<open>Under the read lock; the clock is read only when the cache is set.\<close>

definition check_cache ::
  "'w qos_env \<Rightarrow> PublicAddrCache \<times> 'w \<Rightarrow> ipv4 option \<times> (PublicAddrCache \<times> 'w)" where
  "check_cache env s =
     (case s of
        (Unset, w) \<Rightarrow> (None, (Unset, w))
      | (Set value expires, w) \<Rightarrow>
          (let (time, w) = qos_now env w
           in (if time < expires then Some value else None, (Set value expires, w))))"

text \<open>Under the write lock.\<close>

definition refresh_cache ::
  "'w qos_env \<Rightarrow> PublicAddrCache \<times> 'w \<Rightarrow> ipv4 option \<times> (PublicAddrCache \<times> 'w)" where
  "refresh_cache env s =
     (case s of
        (cache, w) \<Rightarrow>
          (case find_address env w of
             (None, w) \<Rightarrow> (None, (cache, w))
           | (Some value, w) \<Rightarrow>
               (let (time, w) = qos_now env w
                in (Some value, (Set value (time + ADDR_CACHE_TIME), w)))))"

definition public_address ::
  "'w qos_env \<Rightarrow> PublicAddrCache \<times> 'w \<Rightarrow> ipv4 option \<times> (PublicAddrCache \<times> 'w)" where
  "public_address env s =
     (case check_cache env s of
        (Some value, s) \<Rightarrow> (Some value, s)
      | (None, s) \<Rightarrow> refresh_cache env s)"

section \<open>The reply\<close>

definition qos_output :: "bytes \<Rightarrow> ipv4 \<Rightarrow> u16 \<Rightarrow> bytes" where
  "qos_output buffer address port = buffer @ octets address @ u16_to_be_bytes port @ [0, 0, 0, 0]"

definition qos_handle ::
  "'w qos_env \<Rightarrow> socket_addr \<Rightarrow> bytes \<Rightarrow> PublicAddrCache \<times> 'w \<Rightarrow> PublicAddrCache \<times> 'w" where
  "qos_handle env addr buffer s =
     (let socket_ip = (case addr of SocketV4 ip port \<Rightarrow> ip | _ \<Rightarrow> UNSPECIFIED)
      in (case public_address env s of
            (found, (cache, w)) \<Rightarrow>
              (let address = (case found of Some a \<Rightarrow> a | None \<Rightarrow> socket_ip);
                   (_, w) = qos_send_to env (qos_output buffer address (addr_port addr)) addr w
               in (cache, w))))"

section \<open>Properties\<close>

text \<open>C24: An address that was found is cached: for the next thirty minutes it is answered from the
  cache, without a request and without touching the cache.\<close>
theorem public_address_cached:
  assumes "public_address env (cache, w) = (Some value, (cache', w'))"
  shows "\<exists>expires. cache' = Set value expires \<and>
    (cache' = cache \<or> (\<exists>w1 time. qos_now env w1 = (time, w') \<and> expires = time + ADDR_CACHE_TIME)) \<and>
    (\<forall>later. fst (qos_now env later) < expires \<longrightarrow>
       public_address env (cache', later) = (Some value, (cache', snd (qos_now env later))))"
proof -
  have hit: "public_address env (Set value expires, later) = (Some value, (Set value expires, snd (qos_now env later)))"
    if "fst (qos_now env later) < expires" for expires later
    using that by (cases "qos_now env later") (simp add: public_address_def check_cache_def)
  obtain found s where check: "check_cache env (cache, w) = (found, s)" by (meson surj_pair)
  have "\<exists>expires. cache' = Set value expires \<and>
    (cache' = cache \<or> (\<exists>w1 time. qos_now env w1 = (time, w') \<and> expires = time + ADDR_CACHE_TIME))"
  proof (cases found)
    case (Some v)
    with assms check show ?thesis
      by (auto simp: public_address_def check_cache_def split: PublicAddrCache.splits prod.splits if_splits)
  next
    case None
    with assms check show ?thesis
      by (auto simp: public_address_def refresh_cache_def split: prod.splits option.splits)
  qed
  with hit show ?thesis by blast
qed

text \<open>A service that answers after three seconds, at time 100.\<close>

definition sample_qos :: "nat qos_env" where
  "sample_qos =
     \<lparr>qos_now = (\<lambda>w. (w, w)), qos_get = (\<lambda>address w. (Inr 0, w + 3)),
      qos_text = (\<lambda>response w. (Inr (str ''1.2.3.4''), w)), qos_local_ip = (\<lambda>w. (Inl ''none'', w)),
      qos_send_to = (\<lambda>bs addr w. (Inr (length bs), w))\<rparr>"

theorem public_address_cached_witness:
  "public_address sample_qos (Unset, 97) = (Some (1, 2, 3, 4), (Set (1, 2, 3, 4) 1900, 100)) \<and>
    public_address sample_qos (Set (1, 2, 3, 4) 1900, 1899) =
      (Some (1, 2, 3, 4), (Set (1, 2, 3, 4) 1900, 1899))"
proof -
  have run: "public_address sample_qos (Unset, 97) = (Some (1, 2, 3, 4), (Set (1, 2, 3, 4) 1900, 100))"
    by code_simp
  from public_address_cached [OF this] have
    "fst (qos_now sample_qos 1899) < 1900 \<Longrightarrow> public_address sample_qos (Set (1, 2, 3, 4) 1900, 1899) =
      (Some (1, 2, 3, 4), (Set (1, 2, 3, 4) 1900, snd (qos_now sample_qos 1899)))"
    by blast
  with run show ?thesis by (simp add: sample_qos_def)
qed

section \<open>Reading an address back\<close>

definition display_ipv4 :: "ipv4 \<Rightarrow> rstring" where
  "display_ipv4 ip =
     (case ip of (a, b, c, d) \<Rightarrow>
        decimal (unat a) @ [46] @ decimal (unat b) @ [46] @ decimal (unat c) @ [46] @ decimal (unat d))"

lemma digit_word: "n < 10 \<Longrightarrow> unat (word_of_nat (48 + n) :: u8) = 48 + n"
  by (rule unat_word_of_nat_u8) simp

lemma is_digit_word: "n < 10 \<Longrightarrow> is_digit (word_of_nat (48 + n))"
  using digit_word [of n] by (simp add: is_digit_def word_le_nat_alt del: of_nat_add of_nat_numeral)

lemma decimal_Cons: "10 \<le> n \<Longrightarrow> decimal n = decimal (n div 10) @ [word_of_nat (48 + n mod 10)]"
  by (subst decimal.simps) (simp del: of_nat_add of_nat_numeral)

lemma decimal_digit: "n < 10 \<Longrightarrow> decimal n = [word_of_nat (48 + n)]"
  by (subst decimal.simps) (simp del: of_nat_add of_nat_numeral)

lemma decimal_not_Nil [simp]: "decimal n \<noteq> []"
  by (subst decimal.simps) simp

lemma decimal_digits: "list_all is_digit (decimal n)"
proof (induction n rule: decimal.induct)
  case (1 n)
  then show ?case
    by (cases "n < 10") (simp_all add: decimal_digit decimal_Cons is_digit_word del: of_nat_add of_nat_numeral)
qed

lemma digits_value_snoc [simp]: "digits_value (bs @ [b]) = 10 * digits_value bs + (unat b - 48)"
  by (simp add: digits_value_def)

lemma digits_value_decimal: "digits_value (decimal n) = n"
proof (induction n rule: decimal.induct)
  case (1 n)
  show ?case
  proof (cases "n < 10")
    case True
    then show ?thesis
      using digits_value_snoc [of "[]"]
      by (simp add: decimal_digit digit_word digits_value_def del: of_nat_add of_nat_numeral)
  next
    case False
    with 1 show ?thesis
      by (simp add: decimal_Cons digit_word del: of_nat_add of_nat_numeral)
  qed
qed

lemma decimal_leading: "0 < n \<Longrightarrow> hd (decimal n) \<noteq> 48"
proof (induction n rule: decimal.induct)
  case (1 n)
  show ?case
  proof (cases "n < 10")
    case True
    have "unat (word_of_nat (48 + n) :: u8) \<noteq> unat (48 :: u8)"
      using digit_word [OF True] 1(2) by (simp del: of_nat_add of_nat_numeral)
    then have "(word_of_nat (48 + n) :: u8) \<noteq> 48" by metis
    with True show ?thesis by (simp add: decimal_digit del: of_nat_add of_nat_numeral)
  next
    case False
    with 1 show ?thesis by (simp add: decimal_Cons)
  qed
qed

lemma length_decimal: "n < 1000 \<Longrightarrow> length (decimal n) = (if n < 10 then 1 else if n < 100 then 2 else 3)"
  by (auto simp: decimal_digit decimal_Cons)

lemma parse_octet_decimal: "parse_octet (decimal (unat b)) = Some b"
proof -
  have "unat b < 1000" using unat_u8_lt [of b] by linarith
  moreover have "unat b < 10 \<or> hd (decimal (unat b)) \<noteq> 48"
    using decimal_leading [of "unat b"] by linarith
  ultimately show ?thesis
    by (auto simp: parse_octet_def decimal_digits digits_value_decimal length_decimal)
qed

lemma decimal_no_dot: "46 \<notin> set (decimal n)"
  using decimal_digits [of n] by (auto simp: list_all_iff is_digit_def)

lemma decimal_no_newline: "10 \<notin> set (decimal n)"
  using decimal_digits [of n] by (auto simp: list_all_iff is_digit_def)

lemma parse_display: "parse_ipv4 (display_ipv4 ip) = Some ip"
  by (cases ip)
    (simp add: parse_ipv4_def display_ipv4_def split_on_append split_on_last decimal_no_dot parse_octet_decimal)

lemma starts_with_hd: "starts_with (d # s) p \<Longrightarrow> p \<noteq> [] \<Longrightarrow> hd p = d"
  by (cases p) (auto simp: starts_with_def)

lemma strip_all_none:
  assumes "\<forall>p \<in> set ps. hd p \<noteq> d"
  shows "strip_all ps (d # s) = d # s"
proof -
  have "find (\<lambda>p. p \<noteq> [] \<and> starts_with (d # s) p) ps = None"
    using assms starts_with_hd [of d s] by (auto simp: find_None_iff)
  then show ?thesis by (subst strip_all.simps) simp
qed

lemma whitespace_no_digit: "is_digit d \<Longrightarrow> \<forall>p \<in> set whitespace. hd p \<noteq> d \<and> last p \<noteq> d"
  by (auto simp: whitespace_def is_digit_def)

lemma strip_all_digit:
  assumes "is_digit d"
  shows "strip_all whitespace (d # s) = d # s" and "strip_all (map rev whitespace) (d # s) = d # s"
proof -
  show "strip_all whitespace (d # s) = d # s"
    by (rule strip_all_none) (use whitespace_no_digit [OF assms] in blast)
  have "\<forall>p \<in> set (map rev whitespace). hd p \<noteq> d"
    unfolding set_map ball_simps hd_rev using whitespace_no_digit [OF assms] by blast
  then show "strip_all (map rev whitespace) (d # s) = d # s"
    by (rule strip_all_none)
qed

lemma strip_all_newline: "strip_all (map rev whitespace) (10 # s) = strip_all (map rev whitespace) s"
  by (subst strip_all.simps) (simp add: whitespace_def starts_with_def)

lemma display_digits:
  obtains d s s' e where "display_ipv4 ip = d # s" "is_digit d" "display_ipv4 ip = s' @ [e]" "is_digit e"
proof -
  obtain a b c e where ip: "ip = (a, b, c, e)" by (cases ip)
  have "is_digit (hd (decimal n)) \<and> is_digit (last (decimal n))" for n
    using decimal_digits [of n] by (auto simp: list_all_iff)
  moreover have "hd (display_ipv4 ip) = hd (decimal (unat a))" "last (display_ipv4 ip) = last (decimal (unat e))"
    "display_ipv4 ip \<noteq> []"
    by (simp_all add: ip display_ipv4_def)
  ultimately show thesis
    by (metis that append_butlast_last_id list.collapse)
qed

lemma trim_display: "trim (display_ipv4 ip @ replicate n 10) = display_ipv4 ip"
proof -
  obtain d s s' e where ip: "display_ipv4 ip = d # s" "is_digit d" "display_ipv4 ip = s' @ [e]" "is_digit e"
    by (rule display_digits)
  have "strip_all whitespace (display_ipv4 ip @ replicate n 10) = display_ipv4 ip @ replicate n 10"
    using strip_all_digit(1) [OF ip(2)] by (simp add: ip(1))
  moreover have "strip_all (map rev whitespace) (replicate n 10 @ e # rev s') = e # rev s'"
    by (induction n) (simp_all add: strip_all_digit(2) [OF ip(4)] strip_all_newline)
  ultimately show ?thesis
    by (simp add: trim_def ip(3))
qed

text \<open>C25: The answer of an address service is understood: the text of any IPv4 address, with or without
  line breaks after it, is read as that address.\<close>
theorem parse_answer_display: "parse_answer (display_ipv4 ip @ replicate n 10) = Some ip"
proof -
  have "10 \<notin> set (display_ipv4 ip)"
    by (cases ip) (simp add: display_ipv4_def decimal_no_newline)
  then have "remove_all 10 (display_ipv4 ip) = display_ipv4 ip"
    by (auto simp: remove_all_def filter_id_conv)
  then show ?thesis
    by (simp add: parse_answer_def trim_display parse_display)
qed

end
