(* ===== verification/Proxies.thy ===== *)
theory Proxies
  imports Api
begin

text \<open>
  The two servers that hand connections on to the Pocket Relay server: the HTTP proxy of
  \<^verbatim>\<open>src/src/servers/http.rs\<close> and the Blaze server of \<^verbatim>\<open>src/src/servers/blaze.rs\<close>. Of a request that
  hyper gives the proxy, the method, path and query, headers and body are modelled; the code reads
  the path and query only. \<^verbatim>\<open>tokio::io::copy_bidirectional\<close> is the parameter \<open>copy\<close>.
\<close>

section \<open>The HTTP proxy\<close>

record proxy_request =
  pr_method :: rstring
  pr_path_and_query :: "rstring option"
  pr_headers :: "header list"
  pr_body :: bytes

definition default_response :: "nat \<Rightarrow> hyper_response" where
  "default_response status = \<lparr>hyper_status = status, hyper_headers = [], hyper_body = []\<rparr>"

definition proxied_path :: "proxy_request \<Rightarrow> rstring" where
  "proxied_path request =
     (let path_and_query = (case pr_path_and_query request of Some p \<Rightarrow> p | None \<Rightarrow> [])
      in (case strip_prefix path_and_query (str ''/'') of Some p \<Rightarrow> p | None \<Rightarrow> path_and_query))"

definition http_handle ::
  "('url, 'v, 'w) api_env \<Rightarrow> 'url ClientContext \<Rightarrow> proxy_request \<Rightarrow> 'w \<Rightarrow> hyper_response \<times> 'w" where
  "http_handle env ctx request w =
     (case url_join env (base_url ctx) (proxied_path request) of
        Inl e \<Rightarrow> (default_response 503, w)
      | Inr url \<Rightarrow>
          (case proxy_http_request env url w of
             (Inl e, w) \<Rightarrow> (default_response 500, w)
           | (Inr response, w) \<Rightarrow> (response, w)))"

text \<open>A proxied answer is the server's own: when the URL joins, the server answers and its body can
  be read, the game gets the server's status, headers and body unchanged; the method, headers and
  body of the game's request never matter, so that every request goes upstream as a bare GET.\<close>
theorem http_handle_passes_answer:
  assumes "url_join env (base_url ctx) (proxied_path request) = Inr url"
    and "request_send env \<lparr>req_method = GET, req_url = url, req_headers = [], req_json = None\<rparr> w =
      (Inr response, w1)"
    and "response_bytes env response w1 = (Inr body, w2)"
  shows "http_handle env ctx
      \<lparr>pr_method = any_method, pr_path_and_query = pr_path_and_query request,
       pr_headers = any_headers, pr_body = any_body\<rparr> w =
    (\<lparr>hyper_status = resp_status response, hyper_headers = resp_headers response, hyper_body = body\<rparr>, w2)"
  using assms by (simp add: http_handle_def proxied_path_def proxy_http_request_def)

theorem http_handle_passes_answer_witness:
  "http_handle scripted_api \<lparr>base_url = str ''http://s/'', association = None, tunnel_port = None\<rparr>
      \<lparr>pr_method = str ''POST'', pr_path_and_query = Some (str ''/a?b''), pr_headers = [], pr_body = [9]\<rparr> [] =
    (\<lparr>hyper_status = 200, hyper_headers = [], hyper_body = [1, 2, 3]\<rparr>,
     [\<lparr>req_method = GET, req_url = str ''http://s/a?b'', req_headers = [], req_json = None\<rparr>])"
proof -
  let ?request = "\<lparr>pr_method = [], pr_path_and_query = Some (str ''/a?b''), pr_headers = [], pr_body = []\<rparr>"
  let ?ctx = "\<lparr>base_url = str ''http://s/'', association = None, tunnel_port = None\<rparr>"
  have "url_join scripted_api (base_url ?ctx) (proxied_path ?request) = Inr (str ''http://s/a?b'')"
    by (simp add: scripted_api_def proxied_path_def strip_prefix_def starts_with_def str_def)
  from http_handle_passes_answer [OF this, of "[]" "\<lparr>resp_status = 200, resp_headers = [], resp_body = 0\<rparr>" _
      "[1, 2, 3]" _ "str ''POST''" "[]" "[9]"]
  show ?thesis by (simp add: scripted_api_def)
qed

section \<open>The Blaze server\<close>

definition blaze_handle ::
  "('url, 'v, 'w) api_env \<Rightarrow> (connection \<Rightarrow> connection \<Rightarrow> 'w \<Rightarrow> 'w) \<Rightarrow> 'url ClientContext \<Rightarrow>
   connection \<Rightarrow> 'w \<Rightarrow> unit outcome \<times> 'w" where
  "blaze_handle env copy ctx client_stream w =
     (case create_server_stream env (base_url ctx) (association ctx) w of
        (Panic msg, w) \<Rightarrow> (Panic msg, w)
      | (Ret (Inl e), w) \<Rightarrow> (Ret (), w)
      | (Ret (Inr server_stream), w) \<Rightarrow> (Ret (), copy client_stream server_stream w))"

end
