(* ===== verification/Listeners.thy ===== *)
theory Listeners
  imports Servers
begin

text \<open>
  The accept loops of the local servers: \<^verbatim>\<open>start_telemetry_server\<close>, \<^verbatim>\<open>start_blaze_server\<close>,
  \<^verbatim>\<open>start_redirector_server\<close> and \<^verbatim>\<open>start_qos_server\<close>. Each binds its port and then spawns one task
  for each connection (for each datagram, in the QoS server) until accepting fails. The listeners
  of tokio and \<^verbatim>\<open>blaze_ssl_async\<close> are the parameters \<open>bind\<close> and \<open>accept\<close>.
\<close>

section \<open>The loop\<close>

text \<open>\<open>served\<close> pairs each connection with the task that was spawned for it.\<close>

record ('c, 'w) listener =
  served :: "('c \<times> nat) list"
  servers :: server_state
  listener_world :: 'w

definition serve :: "'c \<Rightarrow> ('c, 'w) listener \<Rightarrow> ('c, 'w) listener" where
  "serve c l =
     l\<lparr>served := served l @ [(c, fst (tokio_spawn (servers l)))],
       servers := spawn_server_task (servers l)\<rparr>"

partial_function (option) accept_loop ::
  "('w \<Rightarrow> (io_error + 'c) \<times> 'w) \<Rightarrow> ('c, 'w) listener \<Rightarrow> (io_error \<times> ('c, 'w) listener) option" where
  "accept_loop accept l =
     (case accept (listener_world l) of
        (Inl e, w) \<Rightarrow> Some (e, l\<lparr>listener_world := w\<rparr>)
      | (Inr c, w) \<Rightarrow> accept_loop accept (serve c (l\<lparr>listener_world := w\<rparr>)))"

definition start_listener ::
  "(u16 \<Rightarrow> 'w \<Rightarrow> (io_error + unit) \<times> 'w) \<Rightarrow> ('w \<Rightarrow> (io_error + 'c) \<times> 'w) \<Rightarrow> u16 \<Rightarrow>
   ('c, 'w) listener \<Rightarrow> (io_error \<times> ('c, 'w) listener) option" where
  "start_listener bind accept port l =
     (case bind port (listener_world l) of
        (Inl e, w) \<Rightarrow> Some (e, l\<lparr>listener_world := w\<rparr>)
      | (Inr _, w) \<Rightarrow> accept_loop accept (l\<lparr>listener_world := w\<rparr>))"

definition start_telemetry_server ::
  "(u16 \<Rightarrow> 'w \<Rightarrow> (io_error + unit) \<times> 'w) \<Rightarrow> ('w \<Rightarrow> (io_error + 'c) \<times> 'w) \<Rightarrow>
   ('c, 'w) listener \<Rightarrow> (io_error \<times> ('c, 'w) listener) option" where
  "start_telemetry_server bind accept = start_listener bind accept TELEMETRY_PORT"

definition start_blaze_server ::
  "(u16 \<Rightarrow> 'w \<Rightarrow> (io_error + unit) \<times> 'w) \<Rightarrow> ('w \<Rightarrow> (io_error + 'c) \<times> 'w) \<Rightarrow>
   ('c, 'w) listener \<Rightarrow> (io_error \<times> ('c, 'w) listener) option" where
  "start_blaze_server bind accept = start_listener bind accept BLAZE_PORT"

definition start_redirector_server ::
  "(u16 \<Rightarrow> 'w \<Rightarrow> (io_error + unit) \<times> 'w) \<Rightarrow> ('w \<Rightarrow> (io_error + 'c) \<times> 'w) \<Rightarrow>
   ('c, 'w) listener \<Rightarrow> (io_error \<times> ('c, 'w) listener) option" where
  "start_redirector_server bind accept = start_listener bind accept REDIRECTOR_PORT"

text \<open>The QoS server receives datagrams of at most 4096 bytes; \<open>'c\<close> is an address with its bytes.\<close>

definition start_qos_server ::
  "(u16 \<Rightarrow> 'w \<Rightarrow> (io_error + unit) \<times> 'w) \<Rightarrow> (nat \<Rightarrow> 'w \<Rightarrow> (io_error + 'c) \<times> 'w) \<Rightarrow>
   ('c, 'w) listener \<Rightarrow> (io_error \<times> ('c, 'w) listener) option" where
  "start_qos_server bind recv_from = start_listener bind (recv_from 4096) QOS_PORT"

section \<open>What the loop does\<close>

definition listener_ok :: "('c, 'w) listener \<Rightarrow> bool" where
  "listener_ok l \<longleftrightarrow>
     (\<forall>(c, i) \<in> set (served l). i \<in> running (servers l) \<and> i \<in> set (collection (servers l))) \<and>
     distinct (map snd (served l))"

lemma running_lt: "i \<in> running s \<Longrightarrow> i \<noteq> length (tasks s)"
  by (auto simp: running_def)

lemma listener_ok_serve: "listener_ok l \<Longrightarrow> listener_ok (serve c l)"
  using running_lt
  by (fastforce simp: listener_ok_def serve_def tokio_spawn_def spawn_server_task_def add_server_task_def)

text \<open>\<open>accepts accept w cs w'\<close>: from \<open>w\<close>, the connections \<open>cs\<close> are accepted, up to \<open>w'\<close>.\<close>

inductive accepts :: "('w \<Rightarrow> (io_error + 'c) \<times> 'w) \<Rightarrow> 'w \<Rightarrow> 'c list \<Rightarrow> 'w \<Rightarrow> bool" for accept where
  none: "accepts accept w [] w"
| one: "accept w = (Inr c, w1) \<Longrightarrow> accepts accept w1 cs w' \<Longrightarrow> accepts accept w (c # cs) w'"

inductive_simps accepts_simps: "accepts accept w [] w'" "accepts accept w (c # cs) w'"

lemma accept_loop_runs:
  "accepts accept w cs w1 \<Longrightarrow> accept w1 = (Inl e, w2) \<Longrightarrow> listener_world l = w \<Longrightarrow> listener_ok l \<Longrightarrow>
   \<exists>l'. accept_loop accept l = Some (e, l') \<and> listener_ok l' \<and> listener_world l' = w2 \<and>
     map fst (served l') = map fst (served l) @ cs"
proof (induction arbitrary: l rule: accepts.induct)
  case (none w)
  then show ?case by (subst accept_loop.simps) (simp add: listener_ok_def)
next
  case (one w c wa cs w')
  have "listener_ok (serve c (l\<lparr>listener_world := wa\<rparr>))"
    using one.prems by (intro listener_ok_serve) (simp add: listener_ok_def)
  with one.IH [OF one.prems(1), of "serve c (l\<lparr>listener_world := wa\<rparr>)"] one show ?case
    by (subst accept_loop.simps) (auto simp: serve_def)
qed


section \<open>Property\<close>

text \<open>The telemetry server hands every connection it accepts, in order, to a task of its own that is
  registered for being stopped; it ends only when accepting fails, with that error, and then the
  tasks of the connections accepted before go on.\<close>
theorem telemetry_server_serves_all:
  assumes "bind TELEMETRY_PORT (listener_world l) = (Inr (), w)"
    and "accepts accept w cs w1" and "accept w1 = (Inl e, w2)" and "served l = []"
  shows "\<exists>l'. start_telemetry_server bind accept l = Some (e, l') \<and> map fst (served l') = cs \<and>
    distinct (map snd (served l')) \<and>
    (\<forall>(c, i) \<in> set (served l'). i \<in> running (servers l') \<and> i \<in> set (collection (servers l')))"
proof -
  have "listener_ok (l\<lparr>listener_world := w\<rparr>)" using assms(4) by (simp add: listener_ok_def)
  from accept_loop_runs [OF assms(2,3) _ this] obtain l' where
    "accept_loop accept (l\<lparr>listener_world := w\<rparr>) = Some (e, l')" "listener_ok l'"
    "map fst (served l') = map fst (served l) @ cs"
    by auto
  with assms(1,4) show ?thesis
    by (auto simp: start_telemetry_server_def start_listener_def listener_ok_def)
qed

theorem telemetry_server_serves_all_witness:
  "\<exists>l'. start_telemetry_server (\<lambda>port w. (Inr (), w))
      (\<lambda>w. case w of [] \<Rightarrow> (Inl ''closed'', []) | c # cs \<Rightarrow> (Inr c, cs))
      \<lparr>served = [], servers = no_servers, listener_world = [10, 11 :: nat]\<rparr> = Some (''closed'', l') \<and>
    map fst (served l') = [10, 11] \<and> distinct (map snd (served l')) \<and>
    (\<forall>(c, i) \<in> set (served l'). i \<in> running (servers l') \<and> i \<in> set (collection (servers l')))"
  by (rule telemetry_server_serves_all [where w = "[10, 11]" and ?w1.0 = "[]" and ?w2.0 = "[]"])
    (auto simp: accepts_simps)

end
