(* ===== verification/Update.thy ===== *)
theory Update
  imports Text
begin

text \<open>
  \<^verbatim>\<open>src/src/update.rs\<close>: asking GitHub for the latest release and downloading one of its files.
  \<^verbatim>\<open>reqwest\<close> and the JSON deserializer are parameters on a world.
\<close>

record GitHubReleaseAsset =
  asset_name :: rstring
  browser_download_url :: rstring

record GitHubRelease =
  html_url :: rstring
  tag_name :: rstring
  release_name :: rstring
  published_at :: rstring
  assets :: "GitHubReleaseAsset list"

text \<open>A response has a status and a name for its body.\<close>

record 'w update_env =
  up_get :: "rstring \<Rightarrow> (rstring \<times> rstring) list \<Rightarrow> 'w \<Rightarrow> (string + (nat \<times> nat)) \<times> 'w"
  up_json :: "nat \<times> nat \<Rightarrow> 'w \<Rightarrow> (string + GitHubRelease) \<times> 'w"
  up_bytes :: "nat \<times> nat \<Rightarrow> 'w \<Rightarrow> (string + bytes) \<times> 'w"

definition latest_release_url :: "rstring \<Rightarrow> rstring" where
  "latest_release_url repository =
     str ''https://api.github.com/repos/'' @ repository @ str ''/releases/latest''"

definition get_latest_release ::
  "'w update_env \<Rightarrow> rstring \<Rightarrow> 'w \<Rightarrow> (string + GitHubRelease) \<times> 'w" where
  "get_latest_release env repository w =
     (case up_get env (latest_release_url repository)
          [(str ''accept'', str ''application/json'')] w of
        (Inl e, w) \<Rightarrow> (Inl e, w)
      | (Inr response, w) \<Rightarrow> up_json env response w)"

definition download_latest_release ::
  "'w update_env \<Rightarrow> GitHubReleaseAsset \<Rightarrow> 'w \<Rightarrow> (string + bytes) \<times> 'w" where
  "download_latest_release env asset w =
     (case up_get env (browser_download_url asset) [] w of
        (Inl e, w) \<Rightarrow> (Inl e, w)
      | (Inr response, w) \<Rightarrow> up_bytes env response w)"

text \<open>
  The status is not looked at: the body of any answer, an error page too, is taken for the file.
\<close>

lemma download_takes_any_status:
  "up_get env (browser_download_url asset) [] w = (Inr (status, body), w1) \<Longrightarrow>
   up_bytes env (status, body) w1 = (Inr bs, w2) \<Longrightarrow>
   download_latest_release env asset w = (Inr bs, w2)"
  by (simp add: download_latest_release_def)

end
