(* ===== verification/Spec2Isabelle.thy ===== *)
theory Spec2Isabelle
  imports Redirector Tunnel_Start Telemetry Qos Proxies Listeners Update
begin

text \<open>
  A verification library for the shared core of the Pocket Relay client, the Rust crate under
  \<^verbatim>\<open>src/\<close>. The game talks to a set of local servers; they pass its traffic on to a Pocket Relay
  server, and a tunnel carries the packets of the game between players.

  \<^bold>\<open>Parts, and the theories that model them\<close>

  \<^item> \<open>Prelude\<close>, \<open>Text\<close>: machine integers, byte buffers, outcomes that can panic, \<^verbatim>\<open>Poll\<close>; the string
    and slice operations of the standard library (UTF-8 lossy decoding, splitting, trimming).
  \<^item> \<open>Codec\<close>: what any frame decoder does on chunks of a stream (locales \<open>frame_decoder\<close>,
    \<open>frame_codec\<close>). \<open>Fire\<close> (\<^verbatim>\<open>fire.rs\<close>) and \<open>Tunnel_Codec\<close> (module \<^verbatim>\<open>codec\<close> of \<^verbatim>\<open>servers/tunnel.rs\<close>)
    interpret them.
  \<^item> \<open>Poll_Loop\<close>: the hand-written futures, as a write loop and a read loop (locales
    \<open>poll_outcomes\<close>, \<open>poll_loops\<close>, \<open>poll_terminates\<close>). \<open>Tunnel\<close> (\<^verbatim>\<open>Tunnel\<close> of \<^verbatim>\<open>servers/tunnel.rs\<close>), \<open>Udp_Tunnel\<close> (\<^verbatim>\<open>Tunnel\<close> of
    \<^verbatim>\<open>servers/udp_tunnel.rs\<close>) and \<open>Pool_Socket\<close> (\<^verbatim>\<open>Socket\<close> of both) interpret them. The state of a
    future is a record with the fields the code has, the world, and a trace of the calls made.
  \<^item> \<open>Pool_Start\<close>: \<^verbatim>\<open>Socket::start\<close> and \<^verbatim>\<open>Socket::allocate_pool\<close>, and the two instances of the socket.
    \<open>Reconnect\<close>: the reconnect loops of both tunnels. \<open>Tunnel_Start\<close>: both \<^verbatim>\<open>create_tunnel\<close>, the UDP
    handshake, and running a tunnel to its end.
  \<^item> \<open>Servers\<close> (\<^verbatim>\<open>servers/mod.rs\<close>): the collection of server tasks, with interleaved calls.
    \<open>Listeners\<close>: the accept loops.
  \<^item> \<open>Telemetry\<close>, \<open>Qos\<close>, \<open>Redirector\<close>: the handlers of these servers. \<open>Proxies\<close>: the HTTP proxy and
    the Blaze server. \<open>Api\<close> (\<^verbatim>\<open>api.rs\<close>, \<^verbatim>\<open>ctx.rs\<close>, \<^verbatim>\<open>lib.rs\<close>): requests to the server.
    \<open>Update\<close> (\<^verbatim>\<open>update.rs\<close>): requests to GitHub.

  \<^bold>\<open>How the code is modelled\<close>

  Operations keep the names of the code (with a prefix where two modules share a name) and its
  branches and early returns. A panic is a value (\<^const>\<open>Panic\<close>), an error the left of a sum, and a loop
  that may run forever a partial function whose answer \<^const>\<open>None\<close> is not returning. What the program
  calls outside this repository is a parameter: the fields of the records \<^verbatim>\<open>.._env\<close>, functions on a
  world of any type. Theorems name what they assume of them: that a framed stream reports what the
  encoder answered (\<open>framed_sends\<close>), that a send reports no more bytes than it was given
  (\<open>sends_within\<close>), that clocks do not go back and durations do not go below zero (\<open>clocked\<close>,
  \<open>saturating\<close>), and for termination that only finitely many messages are ready. Nothing is assumed
  of the sends of the UDP tunnel: they may be answered pending or an error at any time. No fuel is used: the loops that end are
  shown to end by measures.

  \<^bold>\<open>What is shown\<close>

  \<^item> Codecs: encoding and decoding are inverse over streams cut in any way; decoders never panic,
    fail or loop on any bytes.
  \<^item> Tunnels and sockets, over their whole life: messages are passed on in order, to the right
    socket, without loss or duplication (the UDP tunnel loses one for a keep-alive or a refused send,
    which is shown too); polls return, do not panic (the UDP tunnel after a refused send only), and
    leave the wake-ups armed that they need, with the exceptions stated.
  \<^item> Starting: sockets get their index and port however their starts interleave; creating a tunnel
    panics only for an unusable URL or token; reconnecting gives up after five failures in a row,
    the handshake after six.
  \<^item> Servers: no running task is ever without an abort handle, and none has two; stopping schedules
    the cancellation of every task, and none runs on, unless it is being spawned meanwhile.
  \<^item> Telemetry publishes every message and only valid UTF-8; the cipher is inverted. The redirector
    sends the client to the local Blaze server, and its answers are decoded as sent. The address
    cache of the QoS server answers for half an hour. The URL of a lookup is well formed.

  \<^bold>\<open>What is not modelled\<close>

  Building the HTTP client and reading its certificate, and binding the hyper server, which are
  single library calls; logging; dropping values (a tunnel that ends closes the channels of its
  sockets); and the interleaving of QoS handlers.
\<close>

section \<open>From the sockets to the wire\<close>

text \<open>C1: Tunnel and codec together: the bytes a live tunnel has put on the stream, in whatever chunks
  they arrive, are decoded at the other end to messages whose data messages are those the sockets
  gave to the tunnel, from the first on, in order, without loss or duplication; at most two are
  still to come, one being written and one in the last bytes, which the decoder does not look at
  yet. The messages are those whose length the header can hold.\<close>
theorem tunnel_end_to_end:
  assumes "framed_sends env" and "tunnel_live env t" and "tunnel_poll env t = Some (r, t')"
    and "list_all tunnel_wf (over_trace sent_event (trace t'))"
    and "concat chunks = fold (\<lambda>m dst. snd (tunnel_encode m dst)) (over_trace sent_event (trace t')) []"
  shows "\<exists>ms rest late. feed tunnel_decode TunnelCodec_default [] chunks = Some (ms, TunnelCodec_default, rest) \<and>
    data_of (over_trace taken_event (trace t')) = data_of ms @ late \<and> length late \<le> 2"
proof -
  from tunnel_outbound [OF assms(1-3)] obtain held where held: "length held \<le> 1"
    "data_of (over_trace taken_event (trace t')) = data_of (over_trace sent_event (trace t')) @ data_of held"
    by blast
  from tunnel_stream [OF assms(4,5)] obtain ms1 ms2 where
    ms: "over_trace sent_event (trace t') = ms1 @ ms2" "length ms2 \<le> 1"
    and feed: "feed tunnel_decode TunnelCodec_default [] chunks =
      Some (ms1, TunnelCodec_default, concat (map tunnel_wire ms2))"
    by fastforce
  have "length (data_of ms2) \<le> 1" "length (data_of held) \<le> 1"
    by (rule order_trans [OF length_filter_le ms(2)], rule order_trans [OF length_filter_le held(1)])
  then have "length (data_of ms2 @ data_of held) \<le> 2" by simp
  with held(2) ms(1) feed show ?thesis
    by (intro exI [of _ ms1] exI [of _ "data_of ms2 @ data_of held"]) auto
qed

theorem tunnel_end_to_end_witness:
  "\<exists>r t' ms rest late.
    tunnel_poll scripted_env (new_tunnel four_handles ([tmsg 1 [7]], [tmsg 2 [8, 9], tmsg 255 []])) = Some (r, t') \<and>
    feed tunnel_decode TunnelCodec_default [] [[1, 0], [1, 7, 255, 0, 0]] = Some (ms, TunnelCodec_default, rest) \<and>
    data_of (over_trace taken_event (trace t')) = data_of ms @ late \<and> length late \<le> 2"
proof -
  obtain r t' where run: "tunnel_poll scripted_env
      (new_tunnel four_handles ([tmsg 1 [7]], [tmsg 2 [8, 9], tmsg 255 []])) = Some (r, t')"
    and sent: "over_trace sent_event (trace t') = [tmsg 1 [7], pong]"
    using scripted_poll by simp
  have "list_all tunnel_wf (over_trace sent_event (trace t'))"
    by (simp add: sent tunnel_wf_def tmsg_def pong_def)
  moreover have "concat [[1, 0], [1, 7, 255, 0, 0]] =
      fold (\<lambda>m dst. snd (tunnel_encode m dst)) (over_trace sent_event (trace t')) []"
    by (simp add: sent tunnel_encode_def codec_simps u16_to_be_bytes_def tmsg_def pong_def)
  ultimately show ?thesis
    using tunnel_end_to_end [OF scripted_sends scripted_live run] run by blast
qed

end
